theory Spec2Isabelle
  imports Main "HOL-Library.Sublist" "HOL-Library.Product_Lexorder"
begin

section \<open>Data model (src/types/index.ts)\<close>

text \<open>
  The providers are the members of \<open>ProviderEnum\<close>; \<open>LLMProvider\<close> excludes the
  sentinel \<open>auto\<close>. The provider names are the strings of the enumeration.
\<close>

datatype LLMProvider =
  openrouter | openai | anthropic | gemini | mistral | groq | together | fireworks | deepseek

datatype Provider = auto | llm LLMProvider

fun providerName :: "LLMProvider \<Rightarrow> string" where
  "providerName openrouter = ''openrouter''"
| "providerName openai = ''openai''"
| "providerName anthropic = ''anthropic''"
| "providerName gemini = ''gemini''"
| "providerName mistral = ''mistral''"
| "providerName groq = ''groq''"
| "providerName together = ''together''"
| "providerName fireworks = ''fireworks''"
| "providerName deepseek = ''deepseek''"

fun providerString :: "Provider \<Rightarrow> string" where
  "providerString auto = ''auto''"
| "providerString (llm p) = providerName p"

text \<open>
  \<open>ApiKeyInfo\<close>: integers of the key store are \<open>int\<close>; \<open>dailyLimit\<close> is
  \<open>number | null\<close>; a \<open>Date\<close> is its time value in milliseconds, which is what
  \<open><\<close> compares.
\<close>

record ApiKeyInfo =
  keyId :: string
  provider :: LLMProvider
  apiKey :: string
  keyName :: "string option"
  priority :: int
  enabled :: bool
  allowedModels :: "string list"
  defaultModel :: string
  dailyLimit :: "int option"
  usedToday :: int
  resetDate :: int

record KeySelectionResult =
  key :: ApiKeyInfo
  resolvedModel :: string

datatype KeySelectionStrategy = ExhaustFirst | RoundRobin

record RoutingContext =
  requestedModel :: "string option"
  requestedProvider :: Provider
  allowedProviders :: "string list option"
  allowedPriorities :: "int list option"

text \<open>
  Errors. \<open>LLMGatewayError\<close> carries the class name, the message, the code and the
  status code; every other thrown value is a \<open>PlainError\<close> with its message.
  \<open>instanceof LLMGatewayError\<close> is the test on the constructor.
\<close>

datatype Error =
  LLMGatewayError string string string int
| PlainError string

fun isGatewayError :: "Error \<Rightarrow> bool" where
  "isGatewayError (LLMGatewayError n m c s) = True"
| "isGatewayError (PlainError m) = False"

fun errorMessage :: "Error \<Rightarrow> string" where
  "errorMessage (LLMGatewayError n m c s) = m"
| "errorMessage (PlainError m) = m"

fun statusCode :: "Error \<Rightarrow> int option" where
  "statusCode (LLMGatewayError n m c s) = Some s"
| "statusCode (PlainError m) = None"

text \<open>JavaScript truthiness of an optional string: absent and empty are falsy.\<close>

fun truthy :: "string option \<Rightarrow> bool" where
  "truthy None = False"
| "truthy (Some m) = (m \<noteq> [])"

definition NoEligibleKeyError :: "string option \<Rightarrow> string option \<Rightarrow> Error" where
  "NoEligibleKeyError model prov =
     LLMGatewayError ''NoEligibleKeyError''
       (''No eligible API key found''
        @ (if truthy model then '' for model: '' @ the model else [])
        @ (if truthy prov then '' with provider: '' @ the prov else []))
       ''NO_ELIGIBLE_KEY'' 429"

definition ProviderError :: "string \<Rightarrow> string \<Rightarrow> int \<Rightarrow> Error" where
  "ProviderError prov msg status =
     LLMGatewayError ''ProviderError'' (''Provider '' @ prov @ '' error: '' @ msg)
       ''PROVIDER_ERROR'' status"

definition ModelNotSupportedError :: "string \<Rightarrow> string \<Rightarrow> Error" where
  "ModelNotSupportedError model prov =
     LLMGatewayError ''ModelNotSupportedError''
       (''Model '' @ model @ '' is not supported by provider '' @ prov)
       ''MODEL_NOT_SUPPORTED'' 400"

section \<open>External stores\<close>

text \<open>
  \<open>UsageLogEntry\<close> (src/services/usage-tracker.ts). The latency, a difference of
  two clock readings, is left out.
\<close>

record UsageLogEntry =
  logKeyId :: string
  logProvider :: LLMProvider
  logModel :: string
  logRequestedModel :: "string option"
  logPromptTokens :: "int option"
  logCompletionTokens :: "int option"
  logTotalTokens :: "int option"
  logSuccess :: bool
  logErrorMessage :: "string option"
  logRequestId :: string

text \<open>
  The state the services act on: the key table of the database (in table order), the
  round-robin counters of Redis (one per provider and priority; an absent counter reads
  as 0, as \<open>INCR\<close> treats it), and the usage log. Time-to-live expiry of a counter
  and failures of the stores themselves are outside the model.
\<close>

record Store =
  apiKeys :: "ApiKeyInfo list"
  rrCounters :: "LLMProvider \<times> int \<Rightarrow> nat"
  usageLogs :: "UsageLogEntry list"

section \<open>Round-robin counter (src/utils/redis.ts)\<close>

text \<open>
  \<open>getNextRoundRobinIndex\<close>: \<open>INCR\<close> returns the new value; the index is
  \<open>(current - 1) % totalKeys\<close>. \<open>%\<close> by zero is \<open>NaN\<close> in JavaScript; the
  caller only passes the length of a non-empty group, and HOL's \<open>mod 0\<close> is not used
  by any theorem below.
\<close>

definition getNextRoundRobinIndex ::
  "LLMProvider \<Rightarrow> int \<Rightarrow> nat \<Rightarrow> Store \<Rightarrow> nat \<times> Store" where
  "getNextRoundRobinIndex prov prio totalKeys s =
     (let current = rrCounters s (prov, prio) + 1;
          s' = s\<lparr>rrCounters := (rrCounters s)((prov, prio) := current)\<rparr>
      in ((current - 1) mod totalKeys, s'))"

section \<open>Key manager (src/services/key-manager.ts)\<close>

subsection \<open>The candidate query\<close>

text \<open>
  The \<open>where\<close> object is built by object spreads, so a later \<open>provider\<close> entry
  replaces an earlier one: when a specific provider is requested, the
  \<open>allowedProviders\<close> condition is overwritten.
\<close>

definition nonEmptyList :: "'a list option \<Rightarrow> bool" where
  "nonEmptyList xs = (case xs of None \<Rightarrow> False | Some l \<Rightarrow> l \<noteq> [])"

definition providerCondition :: "RoutingContext \<Rightarrow> ApiKeyInfo \<Rightarrow> bool" where
  "providerCondition ctx k =
     (case requestedProvider ctx of
        llm p \<Rightarrow> provider k = p
      | auto \<Rightarrow>
          (if nonEmptyList (allowedProviders ctx)
           then providerName (provider k) \<in> set (the (allowedProviders ctx))
           else True))"

definition priorityCondition :: "RoutingContext \<Rightarrow> ApiKeyInfo \<Rightarrow> bool" where
  "priorityCondition ctx k =
     (if nonEmptyList (allowedPriorities ctx)
      then priority k \<in> set (the (allowedPriorities ctx))
      else True)"

definition whereConditions :: "RoutingContext \<Rightarrow> ApiKeyInfo \<Rightarrow> bool" where
  "whereConditions ctx k = (enabled k \<and> providerCondition ctx k \<and> priorityCondition ctx k)"

text \<open>
  \<open>findMany\<close> with \<open>orderBy [priority asc, usedToday asc]\<close>: the rows that satisfy
  the condition, sorted by the pair; rows equal on both keep the table order.
\<close>

definition findMany :: "RoutingContext \<Rightarrow> Store \<Rightarrow> ApiKeyInfo list" where
  "findMany ctx s =
     sort_key (\<lambda>k. (priority k, usedToday k)) (filter (whereConditions ctx) (apiKeys s))"

subsection \<open>Lazy reset\<close>

definition isStale :: "int \<Rightarrow> ApiKeyInfo \<Rightarrow> bool" where
  "isStale today k = (resetDate k < today)"

definition resetKey :: "int \<Rightarrow> ApiKeyInfo \<Rightarrow> ApiKeyInfo" where
  "resetKey today k = k\<lparr>usedToday := 0, resetDate := today\<rparr>"

text \<open>\<open>updateMany\<close> where \<open>id in ids\<close>: every row whose id is listed is rewritten.\<close>

definition updateMany :: "string list \<Rightarrow> int \<Rightarrow> Store \<Rightarrow> Store" where
  "updateMany ids today s =
     s\<lparr>apiKeys := map (\<lambda>k. if keyId k \<in> set ids then resetKey today k else k) (apiKeys s)\<rparr>"

definition resetDailyUsageIfNeeded ::
  "ApiKeyInfo list \<Rightarrow> int \<Rightarrow> Store \<Rightarrow> ApiKeyInfo list \<times> Store" where
  "resetDailyUsageIfNeeded keys today s =
     (let keysToReset = map keyId (filter (isStale today) keys);
          updatedKeys = map (\<lambda>k. if isStale today k then resetKey today k else k) keys
      in (updatedKeys, if keysToReset \<noteq> [] then updateMany keysToReset today s else s))"

subsection \<open>Eligibility filter\<close>

definition endsWithStar :: "string \<Rightarrow> bool" where
  "endsWithStar a = (a \<noteq> [] \<and> last a = CHR ''*'')"

definition modelAllowed :: "string \<Rightarrow> string \<Rightarrow> bool" where
  "modelAllowed requested allowed =
     (allowed = requested \<or> allowed = ''*'' \<or>
      (endsWithStar allowed \<and> prefix (butlast allowed) requested))"

definition keyEligible :: "string option \<Rightarrow> ApiKeyInfo \<Rightarrow> bool" where
  "keyEligible requested k =
     (if dailyLimit k \<noteq> None \<and> usedToday k \<ge> the (dailyLimit k) then False
      else if truthy requested then
        (if \<not> (allowedModels k = [] \<or> list_ex (modelAllowed (the requested)) (allowedModels k))
         then False else True)
      else True)"

definition filterEligibleKeys :: "ApiKeyInfo list \<Rightarrow> string option \<Rightarrow> ApiKeyInfo list" where
  "filterEligibleKeys keys requested = filter (keyEligible requested) keys"

subsection \<open>Grouping by priority\<close>

text \<open>
  The \<open>Map\<close> keeps insertion order; a key is appended to the list of its priority.
  The entries are then sorted by priority.
\<close>

fun pushKey :: "ApiKeyInfo \<Rightarrow> (int \<times> ApiKeyInfo list) list \<Rightarrow> (int \<times> ApiKeyInfo list) list" where
  "pushKey k [] = [(priority k, [k])]"
| "pushKey k ((p, ks) # rest) =
     (if p = priority k then (p, ks @ [k]) # rest else (p, ks) # pushKey k rest)"

definition groupsOf :: "ApiKeyInfo list \<Rightarrow> (int \<times> ApiKeyInfo list) list" where
  "groupsOf keys = foldl (\<lambda>g k. pushKey k g) [] keys"

definition groupKeysByPriority :: "ApiKeyInfo list \<Rightarrow> (int \<times> ApiKeyInfo list) list" where
  "groupKeysByPriority keys = sort_key fst (groupsOf keys)"

subsection \<open>Exhaust-first\<close>

text \<open>
  The comparator subtracts two remaining quotas, where an unlimited key has
  \<open>Infinity\<close>; \<open>Infinity - Infinity\<close> is \<open>NaN\<close>. These are the values that
  subtraction can produce.
\<close>

datatype JSNumber = Finite int | PosInfinity | NegInfinity | NaN

fun jsMinus :: "JSNumber \<Rightarrow> JSNumber \<Rightarrow> JSNumber" where
  "jsMinus (Finite a) (Finite b) = Finite (a - b)"
| "jsMinus NaN _ = NaN"
| "jsMinus _ NaN = NaN"
| "jsMinus PosInfinity PosInfinity = NaN"
| "jsMinus NegInfinity NegInfinity = NaN"
| "jsMinus PosInfinity _ = PosInfinity"
| "jsMinus NegInfinity _ = NegInfinity"
| "jsMinus (Finite a) PosInfinity = NegInfinity"
| "jsMinus (Finite a) NegInfinity = PosInfinity"

definition remainingQuota :: "ApiKeyInfo \<Rightarrow> JSNumber" where
  "remainingQuota k =
     (case dailyLimit k of None \<Rightarrow> PosInfinity | Some d \<Rightarrow> Finite (d - usedToday k))"

definition exhaustCompare :: "ApiKeyInfo \<Rightarrow> ApiKeyInfo \<Rightarrow> JSNumber" where
  "exhaustCompare a b = jsMinus (remainingQuota b) (remainingQuota a)"

text \<open>
  \<open>Array.prototype.sort\<close> is stable, and a comparator result that is \<open>NaN\<close> counts
  as 0. An element moves behind another one only when the comparator is positive.
\<close>

fun isPositive :: "JSNumber \<Rightarrow> bool" where
  "isPositive (Finite v) = (v > 0)"
| "isPositive PosInfinity = True"
| "isPositive NegInfinity = False"
| "isPositive NaN = False"

fun insertSorted :: "('a \<Rightarrow> 'a \<Rightarrow> JSNumber) \<Rightarrow> 'a \<Rightarrow> 'a list \<Rightarrow> 'a list" where
  "insertSorted cmp x [] = [x]"
| "insertSorted cmp x (y # ys) =
     (if isPositive (cmp x y) then y # insertSorted cmp x ys else x # y # ys)"

definition sortArray :: "('a \<Rightarrow> 'a \<Rightarrow> JSNumber) \<Rightarrow> 'a list \<Rightarrow> 'a list" where
  "sortArray cmp xs = foldr (insertSorted cmp) xs []"

text \<open>\<open>sorted[0]\<close> is \<open>undefined\<close> on an empty array, which the caller treats as no key.\<close>

definition selectExhaustFirst :: "ApiKeyInfo list \<Rightarrow> ApiKeyInfo option" where
  "selectExhaustFirst keys =
     (case sortArray exhaustCompare keys of [] \<Rightarrow> None | k # _ \<Rightarrow> Some k)"

subsection \<open>Round-robin\<close>

definition selectRoundRobin ::
  "ApiKeyInfo list \<Rightarrow> int \<Rightarrow> Store \<Rightarrow> ApiKeyInfo option \<times> Store" where
  "selectRoundRobin keys prio s =
     (case keys of
        [] \<Rightarrow> (None, s)
      | k0 # _ \<Rightarrow>
          (let (index, s') = getNextRoundRobinIndex (provider k0) prio (length keys) s
           in (if index < length keys then Some (keys ! index) else None, s')))"

definition selectKeyFromGroup ::
  "ApiKeyInfo list \<Rightarrow> int \<Rightarrow> KeySelectionStrategy \<Rightarrow> Store \<Rightarrow> ApiKeyInfo option \<times> Store" where
  "selectKeyFromGroup keys prio strategy s =
     (if keys = [] then (None, s)
      else if strategy = ExhaustFirst then (selectExhaustFirst keys, s)
      else selectRoundRobin keys prio s)"

subsection \<open>selectKey\<close>

fun selectFromGroups ::
  "(int \<times> ApiKeyInfo list) list \<Rightarrow> KeySelectionStrategy \<Rightarrow> Store \<Rightarrow> ApiKeyInfo option \<times> Store" where
  "selectFromGroups [] strategy s = (None, s)"
| "selectFromGroups ((prio, priorityKeys) # rest) strategy s =
     (case selectKeyFromGroup priorityKeys prio strategy s of
        (Some selectedKey, s') \<Rightarrow> (Some selectedKey, s')
      | (None, s') \<Rightarrow> selectFromGroups rest strategy s')"

definition resolveModel :: "string option \<Rightarrow> ApiKeyInfo \<Rightarrow> string" where
  "resolveModel requested k = (if truthy requested then the requested else defaultModel k)"

definition contextError :: "RoutingContext \<Rightarrow> Error" where
  "contextError ctx =
     NoEligibleKeyError (requestedModel ctx) (Some (providerString (requestedProvider ctx)))"

definition selectKey ::
  "KeySelectionStrategy \<Rightarrow> int \<Rightarrow> RoutingContext \<Rightarrow> Store \<Rightarrow> (Error + KeySelectionResult) \<times> Store" where
  "selectKey strategy today ctx s =
     (let keys = findMany ctx s in
      if keys = [] then (Inl (contextError ctx), s)
      else
        (let (keysWithResetUsage, s1) = resetDailyUsageIfNeeded keys today s;
             eligibleKeys = filterEligibleKeys keysWithResetUsage (requestedModel ctx)
         in if eligibleKeys = [] then (Inl (contextError ctx), s1)
            else
              (case selectFromGroups (groupKeysByPriority eligibleKeys) strategy s1 of
                 (Some selectedKey, s2) \<Rightarrow>
                   (Inr \<lparr>key = selectedKey,
                         resolvedModel = resolveModel (requestedModel ctx) selectedKey\<rparr>, s2)
               | (None, s2) \<Rightarrow> (Inl (contextError ctx), s2))))"

definition incrementUsage :: "string \<Rightarrow> Store \<Rightarrow> Store" where
  "incrementUsage kid s =
     s\<lparr>apiKeys := map (\<lambda>k. if keyId k = kid then k\<lparr>usedToday := usedToday k + 1\<rparr> else k)
                       (apiKeys s)\<rparr>"

section \<open>Request router (src/services/router.ts)\<close>

text \<open>
  The part of a \<open>ChatRequest\<close> that routing reads. The messages and the sampling
  parameters are only handed to the adapter.
\<close>

record ChatRequest =
  reqModel :: "string option"
  reqProvider :: Provider
  reqAllowedProviders :: "string list option"
  reqAllowedPriorities :: "int list option"
  reqRequestId :: "string option"

record UsageInfo =
  promptTokens :: int
  completionTokens :: int
  totalTokens :: int

record ChatResponse =
  responseId :: string
  responseModel :: string
  responseContent :: string
  usage :: "UsageInfo option"

record RouteMetadata =
  metaKeyId :: string
  metaProvider :: LLMProvider
  metaModel :: string

text \<open>
  A provider adapter as the router uses it. Its \<open>chat\<close> is a network call: the
  environment gives the outcome of the call made in attempt \<open>i\<close> with a key and a
  mapped model name, a response or a thrown error.
\<close>

record ProviderAdapter =
  validateModel :: "string \<Rightarrow> bool"
  mapModelName :: "string \<Rightarrow> string"

text \<open>
  What the router is constructed with and what it reads from outside: the strategy of
  the key manager, \<open>maxRetries\<close> and \<open>retryDelayMs\<close> (a count and a number of
  milliseconds, natural numbers), the local midnight read by the \<open>selectKey\<close> call of
  attempt \<open>i\<close>, the adapter registry, the outcome of the chat call of attempt
  \<open>i\<close>, and the request id generated from the clock when the request has none.
\<close>

record RouterEnv =
  keySelectionStrategy :: KeySelectionStrategy
  maxRetries :: nat
  retryDelayMs :: nat
  todayAt :: "nat \<Rightarrow> int"
  getProviderAdapter :: "LLMProvider \<Rightarrow> ProviderAdapter option"
  chatOutcome :: "nat \<Rightarrow> ApiKeyInfo \<Rightarrow> string \<Rightarrow> Error + ChatResponse"
  generatedRequestId :: string

text \<open>
  What a run does besides returning: the attempts, numbered as the loop numbers them, each
  with the error it failed with (\<open>None\<close> for success), and the calls of \<open>sleep\<close>
  with their delay.
\<close>

datatype RouterEvent = Attempted nat "Error option" | Slept nat

definition logUsage :: "UsageLogEntry \<Rightarrow> Store \<Rightarrow> Store" where
  "logUsage entry s = s\<lparr>usageLogs := usageLogs s @ [entry]\<rparr>"

definition isNonRetryableError :: "Error \<Rightarrow> bool" where
  "isNonRetryableError err =
     (case err of
        LLMGatewayError n m c status \<Rightarrow>
          (if status \<ge> 400 \<and> status < 500 then status \<noteq> 429 else False)
      | PlainError m \<Rightarrow> False)"

definition selectKeyWithFallback ::
  "RouterEnv \<Rightarrow> nat \<Rightarrow> RoutingContext \<Rightarrow> string set \<Rightarrow> Store \<Rightarrow>
     (Error + KeySelectionResult) \<times> Store" where
  "selectKeyWithFallback env attempt ctx attemptedKeyIds s =
     (case selectKey (keySelectionStrategy env) (todayAt env attempt) ctx s of
        (Inl err, s') \<Rightarrow> (Inl err, s')
      | (Inr selection, s') \<Rightarrow>
          (if keyId (key selection) \<in> attemptedKeyIds
           then (Inl (ProviderError (providerName (provider (key selection)))
                        ''Key already attempted, trying next'' 503), s')
           else (Inr selection, s')))"

definition requestIdOf :: "RouterEnv \<Rightarrow> ChatRequest \<Rightarrow> string" where
  "requestIdOf env request =
     (if truthy (reqRequestId request) then the (reqRequestId request)
      else generatedRequestId env)"

definition successEntry ::
  "RouterEnv \<Rightarrow> ChatRequest \<Rightarrow> KeySelectionResult \<Rightarrow> ChatResponse \<Rightarrow> UsageLogEntry" where
  "successEntry env request selection response =
     \<lparr>logKeyId = keyId (key selection),
      logProvider = provider (key selection),
      logModel = resolvedModel selection,
      logRequestedModel = reqModel request,
      logPromptTokens = map_option promptTokens (usage response),
      logCompletionTokens = map_option completionTokens (usage response),
      logTotalTokens = map_option totalTokens (usage response),
      logSuccess = True,
      logErrorMessage = None,
      logRequestId = requestIdOf env request\<rparr>"

text \<open>
  The body of the \<open>try\<close> block of attempt \<open>attempt\<close>. It returns the set of
  attempted key ids as well, which the body extends before it can fail.
\<close>

definition tryAttempt ::
  "RouterEnv \<Rightarrow> ChatRequest \<Rightarrow> RoutingContext \<Rightarrow> nat \<Rightarrow> string set \<Rightarrow> Store \<Rightarrow>
     (Error + ChatResponse \<times> RouteMetadata) \<times> string set \<times> Store" where
  "tryAttempt env request ctx attempt attemptedKeyIds s =
     (case selectKeyWithFallback env attempt ctx attemptedKeyIds s of
        (Inl err, s1) \<Rightarrow> (Inl err, attemptedKeyIds, s1)
      | (Inr selection, s1) \<Rightarrow>
          (let attempted' = insert (keyId (key selection)) attemptedKeyIds in
           case getProviderAdapter env (provider (key selection)) of
             None \<Rightarrow>
               (Inl (ProviderError (providerName (provider (key selection)))
                       ''Provider adapter not found'' 500), attempted', s1)
           | Some adapter \<Rightarrow>
               (if \<not> validateModel adapter (resolvedModel selection)
                then (Inl (ModelNotSupportedError (resolvedModel selection)
                             (providerName (provider (key selection)))), attempted', s1)
                else
                  (let mappedModel = mapModelName adapter (resolvedModel selection) in
                   case chatOutcome env attempt (key selection) mappedModel of
                     Inl err \<Rightarrow> (Inl err, attempted', s1)
                   | Inr response \<Rightarrow>
                       (let s2 = incrementUsage (keyId (key selection)) s1;
                            s3 = logUsage (successEntry env request selection response) s2
                        in (Inr (response,
                                 \<lparr>metaKeyId = keyId (key selection),
                                  metaProvider = provider (key selection),
                                  metaModel = resolvedModel selection\<rparr>),
                            attempted', s3))))))"

definition failureEntry ::
  "RouterEnv \<Rightarrow> ChatRequest \<Rightarrow> RoutingContext \<Rightarrow> Error option \<Rightarrow> UsageLogEntry" where
  "failureEntry env request ctx lastError =
     \<lparr>logKeyId = ''unknown'',
      logProvider = (case requestedProvider ctx of auto \<Rightarrow> openai | llm p \<Rightarrow> p),
      logModel = (if truthy (requestedModel ctx) then the (requestedModel ctx) else ''unknown''),
      logRequestedModel = reqModel request,
      logPromptTokens = None,
      logCompletionTokens = None,
      logTotalTokens = None,
      logSuccess = False,
      logErrorMessage = map_option errorMessage lastError,
      logRequestId = requestIdOf env request\<rparr>"

text \<open>The code after the loop: log the failure, then throw.\<close>

definition allAttemptsFailed ::
  "RouterEnv \<Rightarrow> ChatRequest \<Rightarrow> RoutingContext \<Rightarrow> Error option \<Rightarrow> Store \<Rightarrow> Error \<times> Store" where
  "allAttemptsFailed env request ctx lastError s =
     (let s' = logUsage (failureEntry env request ctx lastError) s in
      case lastError of
        Some (LLMGatewayError n m c status) \<Rightarrow> (LLMGatewayError n m c status, s')
      | _ \<Rightarrow> (contextError ctx, s'))"

text \<open>
  The \<open>for\<close> loop from \<open>attempt\<close> on, followed by the code after it. The events
  are those from this point on.
\<close>

function routeLoop ::
  "RouterEnv \<Rightarrow> ChatRequest \<Rightarrow> RoutingContext \<Rightarrow> nat \<Rightarrow> string set \<Rightarrow> Error option \<Rightarrow> Store \<Rightarrow>
     (Error + ChatResponse \<times> RouteMetadata) \<times> Store \<times> RouterEvent list" where
  "routeLoop env request ctx attempt attemptedKeyIds lastError s =
     (if attempt < maxRetries env then
        (case tryAttempt env request ctx attempt attemptedKeyIds s of
           (Inr result, attempted', s') \<Rightarrow> (Inr result, s', [Attempted attempt None])
         | (Inl err, attempted', s') \<Rightarrow>
             (if isNonRetryableError err then
                (case allAttemptsFailed env request ctx (Some err) s' of
                   (thrown, s'') \<Rightarrow> (Inl thrown, s'', [Attempted attempt (Some err)]))
              else if attempt < maxRetries env - 1 then
                (case routeLoop env request ctx (attempt + 1) attempted' (Some err) s' of
                   (r, s'', events) \<Rightarrow>
                     (r, s'', Attempted attempt (Some err)
                              # Slept (retryDelayMs env * 2 ^ attempt) # events))
              else
                (case routeLoop env request ctx (attempt + 1) attempted' (Some err) s' of
                   (r, s'', events) \<Rightarrow> (r, s'', Attempted attempt (Some err) # events))))
      else
        (case allAttemptsFailed env request ctx lastError s of
           (thrown, s') \<Rightarrow> (Inl thrown, s', [])))"
  by pat_completeness auto
termination
  by (relation "measure (\<lambda>(env, request, ctx, attempt, attemptedKeyIds, lastError, s).
                   maxRetries env - attempt)") auto

declare routeLoop.simps [simp del]

definition routingContext :: "ChatRequest \<Rightarrow> RoutingContext" where
  "routingContext request =
     \<lparr>requestedModel = reqModel request,
      requestedProvider = reqProvider request,
      allowedProviders = reqAllowedProviders request,
      allowedPriorities = reqAllowedPriorities request\<rparr>"

definition route ::
  "RouterEnv \<Rightarrow> ChatRequest \<Rightarrow> Store \<Rightarrow>
     (Error + ChatResponse \<times> RouteMetadata) \<times> Store \<times> RouterEvent list" where
  "route env request s = routeLoop env request (routingContext request) 0 {} None s"

section \<open>Queue worker (src/queue/worker.ts)\<close>

text \<open>\<open>QueueJobResult\<close>, without the latency.\<close>

record QueueJobResult =
  jobSuccess :: bool
  jobResponse :: "ChatResponse option"
  jobError :: "string option"
  jobKeyId :: "string option"
  jobProvider :: "LLMProvider option"
  jobModel :: "string option"

text \<open>
  The \<open>try\<close>/\<open>catch\<close> of \<open>processChatJob\<close> around the outcome of
  \<open>router.route(request)\<close>: \<open>Inr\<close> is the value the processor returns to the
  broker, \<open>Inl\<close> the error it throws to it.
\<close>

definition jobResultOf :: "Error + ChatResponse \<times> RouteMetadata \<Rightarrow> Error + QueueJobResult" where
  "jobResultOf outcome =
     (case outcome of
        Inr (response, metadata) \<Rightarrow>
          Inr \<lparr>jobSuccess = True, jobResponse = Some response, jobError = None,
               jobKeyId = Some (metaKeyId metadata), jobProvider = Some (metaProvider metadata),
               jobModel = Some (metaModel metadata)\<rparr>
      | Inl err \<Rightarrow>
          (case err of
             LLMGatewayError n m c status \<Rightarrow>
               (if status < 500 then
                  Inr \<lparr>jobSuccess = False, jobResponse = None, jobError = Some (errorMessage err),
                       jobKeyId = None, jobProvider = None, jobModel = None\<rparr>
                else Inl err)
           | PlainError m \<Rightarrow> Inl err))"

definition processChatJob ::
  "RouterEnv \<Rightarrow> ChatRequest \<Rightarrow> Store \<Rightarrow> (Error + QueueJobResult) \<times> Store" where
  "processChatJob env request s =
     (case route env request s of (outcome, s', events) \<Rightarrow> (jobResultOf outcome, s'))"

text \<open>
  Modelled from the spec: the queue broker, an external library whose code is not part
  of the repository. A job is given to the processor; when the processor returns, the job
  is completed with the returned value and is not run again; when it throws, the job is
  run again while attempts remain (3 by the default job options of
  src/queue/jobs.ts) and is failed with the error's message otherwise. The outcome of
  the processor's \<open>i\<close>-th run is \<open>processor i\<close>; the result also counts the runs.
\<close>

datatype JobState = JobCompleted QueueJobResult | JobFailed string

fun brokerProcess ::
  "nat \<Rightarrow> nat \<Rightarrow> (nat \<Rightarrow> Error + QueueJobResult) \<Rightarrow> JobState \<times> nat" where
  "brokerProcess 0 attemptsMade processor = (JobFailed ''job has no attempts'', attemptsMade)"
| "brokerProcess (Suc remaining) attemptsMade processor =
     (case processor attemptsMade of
        Inr result \<Rightarrow> (JobCompleted result, Suc attemptsMade)
      | Inl err \<Rightarrow>
          (if remaining = 0 then (JobFailed (errorMessage err), Suc attemptsMade)
           else brokerProcess remaining (Suc attemptsMade) processor))"

definition failureResult :: "Error \<Rightarrow> QueueJobResult" where
  "failureResult err =
     \<lparr>jobSuccess = False, jobResponse = None, jobError = Some (errorMessage err),
      jobKeyId = None, jobProvider = None, jobModel = None\<rparr>"

definition clientError :: "Error \<Rightarrow> bool" where
  "clientError err = (case err of LLMGatewayError n m c status \<Rightarrow> status < 500 | PlainError m \<Rightarrow> False)"

section \<open>Job queue (src/queue/jobs.ts)\<close>

record QueueJobData =
  dataRequestId :: string
  dataRequest :: ChatRequest

text \<open>The options \<open>enqueueChatRequest\<close> can pass to \<open>queue.add\<close>.\<close>

record JobsOptions =
  optPriority :: "nat option"
  optDelay :: "nat option"
  optJobId :: "string option"

datatype JobStatus = Waiting | JobDone QueueJobResult | JobBroken string

record Job =
  jobId :: string
  jobName :: string
  jobData :: QueueJobData
  jobStatus :: JobStatus

record ChatQueue =
  queueJobs :: "Job list"
  idCounter :: nat

text \<open>Decimal numerals, as template strings and the broker's id counter print them.\<close>

definition digitChar :: "nat \<Rightarrow> char" where
  "digitChar n = ''0123456789'' ! (n mod 10)"

function showNat :: "nat \<Rightarrow> string" where
  "showNat n = (if n < 10 then [digitChar n] else showNat (n div 10) @ [digitChar n])"
  by pat_completeness auto
termination
  by (relation "measure id") auto

declare showNat.simps [simp del]

text \<open>
  The queue itself belongs to the broker, an external library (BullMQ) whose code is not
  part of the repository; these two operations follow its documented interface.
  \<open>queue.add(name, data, opts)\<close> stores a job under the id \<open>opts.jobId\<close> when
  that option is given, and otherwise under the next value of the queue's own counter,
  printed in decimal; the first argument is the job's name, not its id.
  \<open>queue.getJob(id)\<close> looks a job up by its id. The events of the broker carry the
  id of the job.
\<close>

definition queueAdd :: "string \<Rightarrow> QueueJobData \<Rightarrow> JobsOptions \<Rightarrow> ChatQueue \<Rightarrow> Job \<times> ChatQueue" where
  "queueAdd name' payload opts q =
     (case optJobId opts of
        Some custom \<Rightarrow>
          (let job = \<lparr>jobId = custom, jobName = name', jobData = payload, jobStatus = Waiting\<rparr>
           in (job, q\<lparr>queueJobs := queueJobs q @ [job]\<rparr>))
      | None \<Rightarrow>
          (let job = \<lparr>jobId = showNat (idCounter q + 1), jobName = name', jobData = payload,
                      jobStatus = Waiting\<rparr>
           in (job, q\<lparr>queueJobs := queueJobs q @ [job], idCounter := idCounter q + 1\<rparr>)))"

definition getJob :: "string \<Rightarrow> ChatQueue \<Rightarrow> Job option" where
  "getJob jid q = find (\<lambda>j. jobId j = jid) (queueJobs q)"

text \<open>
  \<open>enqueueChatRequest\<close>; \<open>uuid\<close> is the value \<open>uuidv4()\<close> returns. The options
  object has the keys \<open>priority\<close> and \<open>delay\<close> only.
\<close>

definition enqueueChatRequest ::
  "ChatRequest \<Rightarrow> (nat option \<times> nat option) option \<Rightarrow> string \<Rightarrow> ChatQueue \<Rightarrow> string \<times> ChatQueue" where
  "enqueueChatRequest request options uuid q =
     (let requestId = (if truthy (reqRequestId request) then the (reqRequestId request) else uuid);
          payload = \<lparr>dataRequestId = requestId,
                     dataRequest = request\<lparr>reqRequestId := Some requestId\<rparr>\<rparr>;
          (job, q') = queueAdd requestId payload
                        \<lparr>optPriority = (case options of None \<Rightarrow> None | Some o' \<Rightarrow> fst o'),
                         optDelay = (case options of None \<Rightarrow> None | Some o' \<Rightarrow> snd o'),
                         optJobId = None\<rparr> q
      in (requestId, q'))"

text \<open>
  \<open>waitForJob\<close>. The promise is pending until settled, and settles once: a later
  \<open>resolve\<close> or \<open>reject\<close> has no effect. What reaches the waiter, in the order it
  happens: a \<open>completed\<close> event with a job id and the parsed return value (\<open>None\<close>
  when \<open>parseReturnValue\<close> gives \<open>null\<close>), a \<open>failed\<close> event with a job id and
  a reason, the timer, and the answer of the direct lookup \<open>queue.getJob(requestId)\<close>.
\<close>

datatype Settlement = Pending | Resolved QueueJobResult | Rejected string

datatype WaiterEvent =
  CompletedEvent string "QueueJobResult option"
| FailedEvent string string
| TimerFired
| LookupAnswer "Job option"

definition timeoutMessage :: "string \<Rightarrow> nat \<Rightarrow> string" where
  "timeoutMessage requestId timeoutMs =
     ''Job '' @ requestId @ '' timed out after '' @ showNat timeoutMs @ ''ms''"

fun onEvent :: "string \<Rightarrow> nat \<Rightarrow> WaiterEvent \<Rightarrow> Settlement" where
  "onEvent requestId timeoutMs (CompletedEvent jid returnvalue) =
     (if jid = requestId then
        (case returnvalue of
           Some result \<Rightarrow> Resolved result
         | None \<Rightarrow> Rejected ''Failed to parse job result'')
      else Pending)"
| "onEvent requestId timeoutMs (FailedEvent jid failedReason) =
     (if jid = requestId then Rejected failedReason else Pending)"
| "onEvent requestId timeoutMs TimerFired = Rejected (timeoutMessage requestId timeoutMs)"
| "onEvent requestId timeoutMs (LookupAnswer None) = Pending"
| "onEvent requestId timeoutMs (LookupAnswer (Some job)) =
     (case jobStatus job of
        Waiting \<Rightarrow> Pending
      | JobDone result \<Rightarrow> Resolved result
      | JobBroken reason \<Rightarrow> Rejected (if reason = [] then ''Job failed'' else reason))"

fun waiterStep :: "string \<Rightarrow> nat \<Rightarrow> Settlement \<Rightarrow> WaiterEvent \<Rightarrow> Settlement" where
  "waiterStep requestId timeoutMs Pending ev = onEvent requestId timeoutMs ev"
| "waiterStep requestId timeoutMs settled ev = settled"

definition waitForJob :: "string \<Rightarrow> nat \<Rightarrow> WaiterEvent list \<Rightarrow> Settlement" where
  "waitForJob requestId timeoutMs events = foldl (waiterStep requestId timeoutMs) Pending events"

section \<open>Provider adapters (src/providers)\<close>

text \<open>
  \<open>BaseProviderAdapter.validateModel\<close>. \<open>String.prototype.replace\<close> with a string
  pattern replaces the first occurrence. The regular expression engine is not part of
  the repository: \<open>regexTest pattern model\<close> stands for
  \<open>new RegExp(pattern).test(model)\<close>. \<open>||\<close> binds weaker than \<open>&&\<close>.
\<close>

fun replaceStar :: "string \<Rightarrow> string" where
  "replaceStar [] = []"
| "replaceStar (c # cs) = (if c = CHR ''*'' then ''.*'' @ cs else c # replaceStar cs)"

definition BaseProviderAdapter_validateModel ::
  "(string \<Rightarrow> string \<Rightarrow> bool) \<Rightarrow> string list \<Rightarrow> string \<Rightarrow> bool" where
  "BaseProviderAdapter_validateModel regexTest supportedModels model =
     list_ex (\<lambda>supported.
        supported = model \<or> prefix supported model \<or>
        (CHR ''*'' \<in> set supported \<and> regexTest (replaceStar supported) model))
       supportedModels"

text \<open>The DeepSeek adapter inherits \<open>validateModel\<close>.\<close>

definition DeepSeekAdapter_supportedModels :: "string list" where
  "DeepSeekAdapter_supportedModels = [''deepseek-chat'', ''deepseek-coder'', ''deepseek-reasoner'']"

definition DeepSeekAdapter_validateModel :: "(string \<Rightarrow> string \<Rightarrow> bool) \<Rightarrow> string \<Rightarrow> bool" where
  "DeepSeekAdapter_validateModel regexTest model =
     BaseProviderAdapter_validateModel regexTest DeepSeekAdapter_supportedModels model"

text \<open>
  The Together adapter overrides it. \<open>toLowerCase\<close> is modelled on ASCII letters,
  which is what the model names of the list consist of.
\<close>

definition toLowerCaseChar :: "char \<Rightarrow> char" where
  "toLowerCaseChar c =
     (let n = (of_char c :: nat) in if 65 \<le> n \<and> n \<le> 90 then char_of (n + 32) else c)"

definition toLowerCase :: "string \<Rightarrow> string" where
  "toLowerCase s = map toLowerCaseChar s"

fun stringIncludes :: "string \<Rightarrow> string \<Rightarrow> bool" where
  "stringIncludes [] needle = (needle = [])"
| "stringIncludes (c # hay) needle = (prefix needle (c # hay) \<or> stringIncludes hay needle)"

definition TogetherAdapter_supportedModels :: "string list" where
  "TogetherAdapter_supportedModels =
     [''meta-llama/Meta-Llama-3.1-405B-Instruct-Turbo'',
      ''meta-llama/Meta-Llama-3.1-70B-Instruct-Turbo'',
      ''meta-llama/Meta-Llama-3.1-8B-Instruct-Turbo'',
      ''meta-llama/Llama-3.2-90B-Vision-Instruct-Turbo'',
      ''meta-llama/Llama-3.2-11B-Vision-Instruct-Turbo'',
      ''meta-llama/Llama-3.2-3B-Instruct-Turbo'',
      ''mistralai/Mixtral-8x22B-Instruct-v0.1'',
      ''mistralai/Mixtral-8x7B-Instruct-v0.1'',
      ''mistralai/Mistral-7B-Instruct-v0.3'',
      ''Qwen/Qwen2.5-72B-Instruct-Turbo'',
      ''Qwen/Qwen2.5-7B-Instruct-Turbo'',
      ''Qwen/QwQ-32B-Preview'',
      ''deepseek-ai/DeepSeek-V3'',
      ''deepseek-ai/deepseek-llm-67b-chat'',
      ''google/gemma-2-27b-it'',
      ''google/gemma-2-9b-it'',
      ''WizardLM/WizardLM-2-8x22B'',
      ''databricks/dbrx-instruct'']"

definition TogetherAdapter_validateModel :: "string \<Rightarrow> bool" where
  "TogetherAdapter_validateModel model =
     list_ex (\<lambda>supported.
        model = supported \<or> stringIncludes (toLowerCase supported) (toLowerCase model))
       TogetherAdapter_supportedModels"

text \<open>The OpenRouter adapter overrides it as well.\<close>

definition OpenRouterAdapter_validateModel :: "string \<Rightarrow> bool" where
  "OpenRouterAdapter_validateModel model = True"

text \<open>
  The supported models of the other adapters, and the overrides of \<open>validateModel\<close>
  in the OpenAI, OpenRouter and Fireworks adapters. \<open>split('-')[0]\<close> is the part of
  the string before its first \<open>-\<close>; it is replaced by the empty string when it is
  empty, which changes nothing.
\<close>

definition OpenAIAdapter_supportedModels :: "string list" where
  "OpenAIAdapter_supportedModels =
     [''gpt-4-turbo'',
      ''gpt-4-turbo-preview'',
      ''gpt-4-turbo-2024-04-09'',
      ''gpt-4-0125-preview'',
      ''gpt-4-1106-preview'',
      ''gpt-4'',
      ''gpt-4-0613'',
      ''gpt-4-32k'',
      ''gpt-4-32k-0613'',
      ''gpt-4o'',
      ''gpt-4o-2024-05-13'',
      ''gpt-4o-2024-08-06'',
      ''gpt-4o-2024-11-20'',
      ''gpt-4o-mini'',
      ''gpt-4o-mini-2024-07-18'',
      ''o1-preview'',
      ''o1-preview-2024-09-12'',
      ''o1-mini'',
      ''o1-mini-2024-09-12'',
      ''o1'',
      ''o1-2024-12-17'',
      ''gpt-3.5-turbo'',
      ''gpt-3.5-turbo-0125'',
      ''gpt-3.5-turbo-1106'',
      ''gpt-3.5-turbo-16k'']"

definition GroqAdapter_supportedModels :: "string list" where
  "GroqAdapter_supportedModels =
     [''llama-3.3-70b-versatile'',
      ''llama-3.2-90b-vision-preview'',
      ''llama-3.2-11b-vision-preview'',
      ''llama-3.2-3b-preview'',
      ''llama-3.2-1b-preview'',
      ''llama-3.1-70b-versatile'',
      ''llama-3.1-8b-instant'',
      ''llama3-70b-8192'',
      ''llama3-8b-8192'',
      ''mixtral-8x7b-32768'',
      ''gemma2-9b-it'',
      ''gemma-7b-it'',
      ''whisper-large-v3'',
      ''whisper-large-v3-turbo'']"

definition OpenRouterAdapter_supportedModels :: "string list" where
  "OpenRouterAdapter_supportedModels =
     [''openai/gpt-4-turbo'',
      ''openai/gpt-4o'',
      ''openai/gpt-4o-mini'',
      ''openai/gpt-3.5-turbo'',
      ''openai/o1-preview'',
      ''openai/o1-mini'',
      ''anthropic/claude-3.5-sonnet'',
      ''anthropic/claude-3.5-haiku'',
      ''anthropic/claude-3-opus'',
      ''anthropic/claude-3-sonnet'',
      ''anthropic/claude-3-haiku'',
      ''google/gemini-pro'',
      ''google/gemini-pro-1.5'',
      ''google/gemini-flash-1.5'',
      ''meta-llama/llama-3.1-405b-instruct'',
      ''meta-llama/llama-3.1-70b-instruct'',
      ''meta-llama/llama-3.1-8b-instruct'',
      ''mistralai/mistral-large'',
      ''mistralai/mistral-medium'',
      ''mistralai/mixtral-8x7b-instruct'',
      ''deepseek/deepseek-chat'',
      ''qwen/qwen-2.5-72b-instruct'']"

definition AnthropicAdapter_supportedModels :: "string list" where
  "AnthropicAdapter_supportedModels =
     [''claude-3-5-sonnet-20241022'',
      ''claude-3-5-sonnet-20240620'',
      ''claude-3-5-haiku-20241022'',
      ''claude-3-opus-20240229'',
      ''claude-3-sonnet-20240229'',
      ''claude-3-haiku-20240307'',
      ''claude-3-5-sonnet-latest'',
      ''claude-3-5-haiku-latest'',
      ''claude-3-opus-latest'']"

definition GeminiAdapter_supportedModels :: "string list" where
  "GeminiAdapter_supportedModels =
     [''gemini-1.5-pro'',
      ''gemini-1.5-pro-latest'',
      ''gemini-1.5-flash'',
      ''gemini-1.5-flash-latest'',
      ''gemini-1.5-flash-8b'',
      ''gemini-1.0-pro'',
      ''gemini-pro'',
      ''gemini-2.0-flash-exp'']"

definition FireworksAdapter_supportedModels :: "string list" where
  "FireworksAdapter_supportedModels =
     [''accounts/fireworks/models/llama-v3p1-405b-instruct'',
      ''accounts/fireworks/models/llama-v3p1-70b-instruct'',
      ''accounts/fireworks/models/llama-v3p1-8b-instruct'',
      ''accounts/fireworks/models/llama-v3p2-90b-vision-instruct'',
      ''accounts/fireworks/models/llama-v3p2-11b-vision-instruct'',
      ''accounts/fireworks/models/llama-v3p2-3b-instruct'',
      ''accounts/fireworks/models/llama-v3p2-1b-instruct'',
      ''accounts/fireworks/models/mixtral-8x22b-instruct'',
      ''accounts/fireworks/models/mixtral-8x7b-instruct'',
      ''accounts/fireworks/models/qwen2p5-72b-instruct'',
      ''accounts/fireworks/models/qwen2p5-coder-32b-instruct'',
      ''accounts/fireworks/models/deepseek-v3'',
      ''accounts/fireworks/models/deepseek-coder-v2-instruct'',
      ''accounts/fireworks/models/firefunction-v2'',
      ''accounts/fireworks/models/firellava-13b'']"

definition MistralAdapter_supportedModels :: "string list" where
  "MistralAdapter_supportedModels =
     [''mistral-large-latest'',
      ''mistral-large-2411'',
      ''mistral-medium-latest'',
      ''mistral-small-latest'',
      ''mistral-small-2409'',
      ''mistral-large-2407'',
      ''mistral-medium-2312'',
      ''open-mistral-7b'',
      ''open-mixtral-8x7b'',
      ''open-mixtral-8x22b'',
      ''codestral-latest'',
      ''codestral-2405'',
      ''mistral-embed'',
      ''pixtral-12b-2409'',
      ''pixtral-large-latest'']"

definition firstSegment :: "string \<Rightarrow> string" where
  "firstSegment supported = takeWhile (\<lambda>c. c \<noteq> CHR ''-'') supported"

definition OpenAIAdapter_validateModel :: "string \<Rightarrow> bool" where
  "OpenAIAdapter_validateModel model =
     list_ex (\<lambda>supported. model = supported \<or> prefix (firstSegment supported) model)
       OpenAIAdapter_supportedModels"

definition FireworksAdapter_validateModel :: "string \<Rightarrow> bool" where
  "FireworksAdapter_validateModel model =
     (prefix ''accounts/'' model \<or>
      list_ex (\<lambda>supported. stringIncludes (toLowerCase supported) (toLowerCase model))
        FireworksAdapter_supportedModels)"

text \<open>
  The registry of src/providers/index.ts, which holds one adapter for every provider:
  the supported models and the \<open>validateModel\<close> of the adapter registered for a
  provider.
\<close>

fun supportedModelsOf :: "LLMProvider \<Rightarrow> string list" where
  "supportedModelsOf openai = OpenAIAdapter_supportedModels"
| "supportedModelsOf anthropic = AnthropicAdapter_supportedModels"
| "supportedModelsOf openrouter = OpenRouterAdapter_supportedModels"
| "supportedModelsOf gemini = GeminiAdapter_supportedModels"
| "supportedModelsOf mistral = MistralAdapter_supportedModels"
| "supportedModelsOf groq = GroqAdapter_supportedModels"
| "supportedModelsOf together = TogetherAdapter_supportedModels"
| "supportedModelsOf fireworks = FireworksAdapter_supportedModels"
| "supportedModelsOf deepseek = DeepSeekAdapter_supportedModels"

fun registryValidateModel :: "(string \<Rightarrow> string \<Rightarrow> bool) \<Rightarrow> LLMProvider \<Rightarrow> string \<Rightarrow> bool" where
  "registryValidateModel regexTest openai model = OpenAIAdapter_validateModel model"
| "registryValidateModel regexTest anthropic model =
     BaseProviderAdapter_validateModel regexTest AnthropicAdapter_supportedModels model"
| "registryValidateModel regexTest openrouter model = OpenRouterAdapter_validateModel model"
| "registryValidateModel regexTest gemini model =
     BaseProviderAdapter_validateModel regexTest GeminiAdapter_supportedModels model"
| "registryValidateModel regexTest mistral model =
     BaseProviderAdapter_validateModel regexTest MistralAdapter_supportedModels model"
| "registryValidateModel regexTest groq model =
     BaseProviderAdapter_validateModel regexTest GroqAdapter_supportedModels model"
| "registryValidateModel regexTest together model = TogetherAdapter_validateModel model"
| "registryValidateModel regexTest fireworks model = FireworksAdapter_validateModel model"
| "registryValidateModel regexTest deepseek model = DeepSeekAdapter_validateModel regexTest model"

section \<open>Notions used to state the properties\<close>

text \<open>
  \<open>atLeastRemaining a b\<close>: the remaining quota \<open>dailyLimit - usedToday\<close> of
  \<open>a\<close> is at least that of \<open>b\<close>, where a key without \<open>dailyLimit\<close> has
  infinite remaining quota.
\<close>

definition atLeastRemaining :: "ApiKeyInfo \<Rightarrow> ApiKeyInfo \<Rightarrow> bool" where
  "atLeastRemaining a b =
     (case dailyLimit a of
        None \<Rightarrow> True
      | Some da \<Rightarrow>
          (case dailyLimit b of
             None \<Rightarrow> False
           | Some db \<Rightarrow> db - usedToday b \<le> da - usedToday a))"

text \<open>The keys that \<open>selectKey\<close> groups: the candidates of the query, seen after the
  lazy reset, that pass the quota and model filter.\<close>

definition resetView :: "int \<Rightarrow> ApiKeyInfo list \<Rightarrow> ApiKeyInfo list" where
  "resetView today keys = map (\<lambda>k. if isStale today k then resetKey today k else k) keys"

definition eligibleKeys :: "int \<Rightarrow> RoutingContext \<Rightarrow> Store \<Rightarrow> ApiKeyInfo list" where
  "eligibleKeys today ctx s =
     filterEligibleKeys (resetView today (findMany ctx s)) (requestedModel ctx)"

definition lowestGroup :: "ApiKeyInfo list \<Rightarrow> ApiKeyInfo list" where
  "lowestGroup keys = filter (\<lambda>k. priority k = Min (priority ` set keys)) keys"

definition quotaOk :: "ApiKeyInfo \<Rightarrow> bool" where
  "quotaOk k = (case dailyLimit k of None \<Rightarrow> True | Some D \<Rightarrow> usedToday k < D)"

definition modelOk :: "string \<Rightarrow> ApiKeyInfo \<Rightarrow> bool" where
  "modelOk m k =
     (allowedModels k = [] \<or> ''*'' \<in> set (allowedModels k) \<or> m \<in> set (allowedModels k) \<or>
      (\<exists>p. p @ ''*'' \<in> set (allowedModels k) \<and> prefix p m))"

text \<open>
  Consecutive round-robin selections against one group, and the indices the spec
  describes: the counter's new value minus one, modulo the group size, where
  \<open>counter\<close> is the value before the first invocation.
\<close>

fun roundRobinSelections ::
  "nat \<Rightarrow> ApiKeyInfo list \<Rightarrow> int \<Rightarrow> Store \<Rightarrow> ApiKeyInfo option list \<times> Store" where
  "roundRobinSelections 0 keys prio s = ([], s)"
| "roundRobinSelections (Suc n) keys prio s =
     (let (selected, s') = selectRoundRobin keys prio s;
          (others, s'') = roundRobinSelections n keys prio s'
      in (selected # others, s''))"

definition roundRobinIndices :: "nat \<Rightarrow> nat \<Rightarrow> nat \<Rightarrow> nat list" where
  "roundRobinIndices counter groupSize n = map (\<lambda>j. (counter + j) mod groupSize) [0..<n]"

text \<open>
  The retry policy as a test on the events of a run, for \<open>M\<close> attempts at most, base
  delay \<open>d\<close> and next attempt number \<open>a\<close>: the events are attempts numbered
  consecutively; an attempt is followed by a sleep of \<open>d * 2 ^ a\<close> and a further
  attempt exactly when it failed with a retryable error and \<open>a + 1 < M\<close>; otherwise
  it is the last event.
\<close>

fun isAttempt :: "RouterEvent \<Rightarrow> bool" where
  "isAttempt (Attempted i out) = True"
| "isAttempt (Slept t) = False"

fun retryDiscipline :: "nat \<Rightarrow> nat \<Rightarrow> nat \<Rightarrow> RouterEvent list \<Rightarrow> bool" where
  "retryDiscipline M d a [] = (M \<le> a)"
| "retryDiscipline M d a [Attempted i out] =
     (i = a \<and> a < M \<and>
      (case out of None \<Rightarrow> True | Some e \<Rightarrow> isNonRetryableError e \<or> M \<le> a + 1))"
| "retryDiscipline M d a (Attempted i out # Slept t # rest) =
     (i = a \<and> a + 1 < M \<and>
      (case out of None \<Rightarrow> False | Some e \<Rightarrow> \<not> isNonRetryableError e) \<and>
      t = d * 2 ^ a \<and> rest \<noteq> [] \<and> retryDiscipline M d (a + 1) rest)"
| "retryDiscipline M d a _ = False"

fun lastAttemptError :: "Error option \<Rightarrow> RouterEvent list \<Rightarrow> Error option" where
  "lastAttemptError acc [] = acc"
| "lastAttemptError acc (Attempted i out # rest) = lastAttemptError out rest"
| "lastAttemptError acc (Slept t # rest) = lastAttemptError acc rest"

definition thrownFor :: "RoutingContext \<Rightarrow> Error option \<Rightarrow> Error" where
  "thrownFor ctx lastError =
     (case lastError of
        Some (LLMGatewayError n m c status) \<Rightarrow> LLMGatewayError n m c status
      | _ \<Rightarrow> NoEligibleKeyError (requestedModel ctx) (Some (providerString (requestedProvider ctx))))"

text \<open>
  The candidate condition of the query in the words of the spec (section 4.1, step 1):
  enabled, and the provider in \<open>allowedProviders\<close> unless that list is empty, and the
  priority in \<open>allowedPriorities\<close> unless that list is empty, and the provider equal
  to the requested one unless that is \<open>auto\<close>.
\<close>

definition specCandidate :: "RoutingContext \<Rightarrow> ApiKeyInfo \<Rightarrow> bool" where
  "specCandidate ctx k =
     (enabled k \<and>
      (\<not> nonEmptyList (allowedProviders ctx) \<or>
         providerName (provider k) \<in> set (the (allowedProviders ctx))) \<and>
      (\<not> nonEmptyList (allowedPriorities ctx) \<or>
         priority k \<in> set (the (allowedPriorities ctx))) \<and>
      (requestedProvider ctx = auto \<or> llm (provider k) = requestedProvider ctx))"

text \<open>
  A regular expression test that matches everything and one that matches nothing: a
  model name that the inherited rule rejects with the first is rejected with every
  regular expression engine.
\<close>

definition anyPattern :: "string \<Rightarrow> string \<Rightarrow> bool" where
  "anyPattern pattern model = True"

definition noPattern :: "string \<Rightarrow> string \<Rightarrow> bool" where
  "noPattern pattern model = False"

section \<open>Example data\<close>

definition keyA :: ApiKeyInfo where
  "keyA = \<lparr>keyId = ''A'', provider = openai, apiKey = ''sk-a'', keyName = None, priority = 1,
           enabled = True, allowedModels = [], defaultModel = ''gpt-4o'',
           dailyLimit = Some 10, usedToday = 9, resetDate = 100\<rparr>"

definition keyB :: ApiKeyInfo where
  "keyB = \<lparr>keyId = ''B'', provider = openai, apiKey = ''sk-b'', keyName = None, priority = 1,
           enabled = True, allowedModels = [], defaultModel = ''gpt-4o'',
           dailyLimit = Some 5, usedToday = 1, resetDate = 100\<rparr>"

definition keyC :: ApiKeyInfo where
  "keyC = \<lparr>keyId = ''C'', provider = openai, apiKey = ''sk-c'', keyName = None, priority = 2,
           enabled = True, allowedModels = [''gpt-4*''], defaultModel = ''gpt-4o'',
           dailyLimit = Some 3, usedToday = 3, resetDate = 99\<rparr>"

definition ctxAuto :: RoutingContext where
  "ctxAuto = \<lparr>requestedModel = None, requestedProvider = auto,
              allowedProviders = None, allowedPriorities = None\<rparr>"

definition ctxAnthropic :: RoutingContext where
  "ctxAnthropic = \<lparr>requestedModel = None, requestedProvider = llm anthropic,
                   allowedProviders = None, allowedPriorities = None\<rparr>"

definition store0 :: Store where
  "store0 = \<lparr>apiKeys = [keyA, keyB, keyC], rrCounters = (\<lambda>_. 0), usageLogs = []\<rparr>"

definition keyD :: ApiKeyInfo where
  "keyD = \<lparr>keyId = ''D'', provider = openai, apiKey = ''sk-d'', keyName = None, priority = 1,
           enabled = True, allowedModels = [''gpt-4*''], defaultModel = ''gpt-4o'',
           dailyLimit = None, usedToday = 7, resetDate = 100\<rparr>"

definition ctxFail :: RoutingContext where
  "ctxFail = \<lparr>requestedModel = Some ''claude-3'', requestedProvider = auto,
              allowedProviders = None, allowedPriorities = Some [2]\<rparr>"

text \<open>Environments for the example runs of the router.\<close>

definition permissiveAdapter :: ProviderAdapter where
  "permissiveAdapter = \<lparr>validateModel = (\<lambda>m. True), mapModelName = (\<lambda>m. m)\<rparr>"

definition envFail500 :: RouterEnv where
  "envFail500 =
     \<lparr>keySelectionStrategy = ExhaustFirst, maxRetries = 3, retryDelayMs = 1000,
      todayAt = (\<lambda>i. 100), getProviderAdapter = (\<lambda>p. Some permissiveAdapter),
      chatOutcome = (\<lambda>i k m. Inl (ProviderError ''openai'' ''HTTP 500: upstream'' 500)),
      generatedRequestId = ''req_0''\<rparr>"

definition envFail400 :: RouterEnv where
  "envFail400 =
     \<lparr>keySelectionStrategy = ExhaustFirst, maxRetries = 3, retryDelayMs = 1000,
      todayAt = (\<lambda>i. 100), getProviderAdapter = (\<lambda>p. Some permissiveAdapter),
      chatOutcome = (\<lambda>i k m. Inl (ProviderError ''openai'' ''HTTP 400: bad request'' 400)),
      generatedRequestId = ''req_0''\<rparr>"

definition envPlain :: RouterEnv where
  "envPlain =
     \<lparr>keySelectionStrategy = ExhaustFirst, maxRetries = 1, retryDelayMs = 1000,
      todayAt = (\<lambda>i. 100), getProviderAdapter = (\<lambda>p. Some permissiveAdapter),
      chatOutcome = (\<lambda>i k m. Inl (PlainError ''socket hang up'')),
      generatedRequestId = ''req_0''\<rparr>"

definition requestAuto :: ChatRequest where
  "requestAuto = \<lparr>reqModel = None, reqProvider = auto, reqAllowedProviders = None,
                  reqAllowedPriorities = None, reqRequestId = Some ''r1''\<rparr>"

definition requestR1 :: ChatRequest where
  "requestR1 = \<lparr>reqModel = None, reqProvider = auto, reqAllowedProviders = None,
                reqAllowedPriorities = None, reqRequestId = Some ''req-1''\<rparr>"

definition emptyQueue :: ChatQueue where
  "emptyQueue = \<lparr>queueJobs = [], idCounter = 0\<rparr>"

definition resultOk :: QueueJobResult where
  "resultOk = \<lparr>jobSuccess = True, jobResponse = None, jobError = None,
               jobKeyId = Some ''A'', jobProvider = Some openai, jobModel = Some ''gpt-4o''\<rparr>"

definition keyX :: ApiKeyInfo where
  "keyX = \<lparr>keyId = ''X'', provider = openai, apiKey = ''sk-x'', keyName = None, priority = 1,
           enabled = True, allowedModels = [], defaultModel = ''gpt-4o'',
           dailyLimit = Some 10, usedToday = 5, resetDate = 99\<rparr>"

definition keyY :: ApiKeyInfo where
  "keyY = \<lparr>keyId = ''Y'', provider = openai, apiKey = ''sk-y'', keyName = None, priority = 1,
           enabled = True, allowedModels = [], defaultModel = ''gpt-4o'',
           dailyLimit = Some 13, usedToday = 3, resetDate = 100\<rparr>"

definition storeXY :: Store where
  "storeXY = \<lparr>apiKeys = [keyX, keyY], rrCounters = (\<lambda>_. 0), usageLogs = []\<rparr>"

definition ctxConflict :: RoutingContext where
  "ctxConflict = \<lparr>requestedModel = None, requestedProvider = llm openai,
                  allowedProviders = Some [''anthropic''], allowedPriorities = None\<rparr>"

definition registryAdapter :: "LLMProvider \<Rightarrow> ProviderAdapter" where
  "registryAdapter p = \<lparr>validateModel = registryValidateModel noPattern p,
                         mapModelName = (\<lambda>m. m)\<rparr>"

definition envRegistry :: RouterEnv where
  "envRegistry =
     \<lparr>keySelectionStrategy = ExhaustFirst, maxRetries = 3, retryDelayMs = 1000,
      todayAt = (\<lambda>i. 100), getProviderAdapter = (\<lambda>p. Some (registryAdapter p)),
      chatOutcome = (\<lambda>i k m. Inl (ProviderError ''openai'' ''HTTP 500: upstream'' 500)),
      generatedRequestId = ''req_0''\<rparr>"

definition requestDated :: ChatRequest where
  "requestDated = \<lparr>reqModel = Some ''gpt-4o-2099-01-01'', reqProvider = auto,
                   reqAllowedProviders = None, reqAllowedPriorities = None,
                   reqRequestId = Some ''r2''\<rparr>"

section \<open>Properties of the key manager\<close>

subsection \<open>Grouping\<close>

lemma pushKey_fst: "set (map fst (pushKey k g)) = insert (priority k) (set (map fst g))"
proof (induction g)
  case Nil
  then show ?case by simp
next
  case (Cons a g)
  obtain p ks where a: "a = (p, ks)" by (cases a)
  show ?case
  proof (cases "p = priority k")
    case True
    then show ?thesis using a by auto
  next
    case False
    then show ?thesis using a Cons by auto
  qed
qed

lemma pushKey_distinct: "distinct (map fst g) \<Longrightarrow> distinct (map fst (pushKey k g))"
proof (induction g)
  case Nil
  then show ?case by simp
next
  case (Cons a g)
  obtain p ks where a: "a = (p, ks)" by (cases a)
  from Cons have "distinct (map fst (pushKey k g))" by simp
  moreover have "p \<noteq> priority k \<Longrightarrow> p \<notin> set (map fst (pushKey k g))"
    using Cons.prems a by (simp only: pushKey_fst) auto
  ultimately show ?case using Cons.prems a by auto
qed

lemma pushKey_map_of:
  "map_of (pushKey k g) =
     (map_of g)(priority k \<mapsto> (case map_of g (priority k) of None \<Rightarrow> [] | Some ks \<Rightarrow> ks) @ [k])"
  by (induction g) (auto simp: fun_eq_iff)

lemma groupsOf_snoc: "groupsOf (keys @ [k]) = pushKey k (groupsOf keys)"
  by (simp add: groupsOf_def)

lemma groupsOf_distinct: "distinct (map fst (groupsOf keys))"
  by (induction keys rule: rev_induct) (simp_all add: groupsOf_def pushKey_distinct)

lemma groupsOf_map_of:
  "map_of (groupsOf keys) p =
     (if p \<in> priority ` set keys then Some (filter (\<lambda>k. priority k = p) keys) else None)"
proof (induction keys arbitrary: p rule: rev_induct)
  case Nil
  then show ?case by (simp add: groupsOf_def)
next
  case (snoc x xs)
  show ?case
  proof (cases "p = priority x")
    case True
    show ?thesis
    proof (cases "priority x \<in> priority ` set xs")
      case True
      then have "map_of (groupsOf xs) (priority x) = Some (filter (\<lambda>k. priority k = priority x) xs)"
        using snoc[of "priority x"] by simp
      then show ?thesis using \<open>p = priority x\<close>
        by (simp add: groupsOf_snoc pushKey_map_of)
    next
      case False
      then have none: "map_of (groupsOf xs) (priority x) = None"
        using snoc[of "priority x"] by simp
      from False have "\<forall>k\<in>set xs. priority k \<noteq> priority x"
        by (metis imageI)
      then have "filter (\<lambda>k. priority k = priority x) xs = []"
        by (simp add: filter_empty_conv)
      then show ?thesis using \<open>p = priority x\<close> none
        by (simp add: groupsOf_snoc pushKey_map_of)
    qed
  next
    case False
    then show ?thesis
      using snoc[of p] by (auto simp: groupsOf_snoc pushKey_map_of)
  qed
qed

lemma groupKeysByPriority_hd:
  assumes "keys \<noteq> []"
  shows "\<exists>rest. groupKeysByPriority keys =
           (Min (priority ` set keys), filter (\<lambda>k. priority k = Min (priority ` set keys)) keys) # rest"
proof -
  let ?G = "groupsOf keys"
  let ?L = "sort_key fst ?G"
  have L: "groupKeysByPriority keys = ?L" by (simp add: groupKeysByPriority_def)
  have dG: "distinct (map fst ?G)" by (rule groupsOf_distinct)
  have mem: "\<And>p ks. (p, ks) \<in> set ?G \<longleftrightarrow>
                p \<in> priority ` set keys \<and> ks = filter (\<lambda>k. priority k = p) keys"
  proof -
    fix p ks
    have "(p, ks) \<in> set ?G \<longleftrightarrow> map_of ?G p = Some ks"
      using map_of_eq_Some_iff[OF dG] by simp
    then show "(p, ks) \<in> set ?G \<longleftrightarrow>
                p \<in> priority ` set keys \<and> ks = filter (\<lambda>k. priority k = p) keys"
      by (simp only: groupsOf_map_of) (auto split: if_splits)
  qed
  have fstG: "fst ` set ?G = priority ` set keys"
  proof (rule set_eqI)
    fix q
    show "q \<in> fst ` set ?G \<longleftrightarrow> q \<in> priority ` set keys"
    proof
      assume "q \<in> fst ` set ?G"
      then obtain ks where "(q, ks) \<in> set ?G" by auto
      then show "q \<in> priority ` set keys" using mem by blast
    next
      assume "q \<in> priority ` set keys"
      then have "(q, filter (\<lambda>k. priority k = q) keys) \<in> set ?G" using mem by blast
      then show "q \<in> fst ` set ?G" by force
    qed
  qed
  have "?G \<noteq> []" using fstG assms by auto
  then have "?L \<noteq> []" by (metis length_sort length_0_conv)
  then obtain p0 ks0 rest where Lc: "?L = (p0, ks0) # rest" by (cases ?L) auto
  have "sorted (map fst ?L)" by (rule sorted_sort_key)
  then have le: "\<forall>q \<in> fst ` set ?L. p0 \<le> q" unfolding Lc by auto
  have setL: "set ?L = set ?G" by simp
  have in0: "(p0, ks0) \<in> set ?G" using Lc setL by (metis list.set_intros(1))
  then have p0in: "p0 \<in> priority ` set keys" and ks0: "ks0 = filter (\<lambda>k. priority k = p0) keys"
    using mem by auto
  have "p0 = Min (priority ` set keys)"
  proof (rule sym, rule Min_eqI)
    show "finite (priority ` set keys)" by simp
    show "\<And>y. y \<in> priority ` set keys \<Longrightarrow> p0 \<le> y" using le setL fstG by auto
    show "p0 \<in> priority ` set keys" by (rule p0in)
  qed
  then show ?thesis using L Lc ks0 by simp
qed

subsection \<open>Exhaust-first\<close>

lemma exhaustCompare_positive:
  "isPositive (exhaustCompare a b) \<longleftrightarrow> \<not> atLeastRemaining a b"
  by (auto simp: exhaustCompare_def remainingQuota_def atLeastRemaining_def split: option.splits)

lemma atLeastRemaining_total: "\<not> atLeastRemaining a b \<Longrightarrow> atLeastRemaining b a"
  by (auto simp: atLeastRemaining_def split: option.splits)

lemma atLeastRemaining_trans:
  "atLeastRemaining a b \<Longrightarrow> atLeastRemaining b c \<Longrightarrow> atLeastRemaining a c"
  by (auto simp: atLeastRemaining_def split: option.splits)

lemma atLeastRemaining_refl: "atLeastRemaining a a"
  by (auto simp: atLeastRemaining_def split: option.splits)

lemma sortArray_Cons: "sortArray cmp (x # xs) = insertSorted cmp x (sortArray cmp xs)"
  by (simp add: sortArray_def)

lemma sortArray_exhaust_head:
  "keys \<noteq> [] \<Longrightarrow>
   \<exists>i rest. i < length keys \<and> sortArray exhaustCompare keys = keys ! i # rest \<and>
     (\<forall>j<length keys. atLeastRemaining (keys ! i) (keys ! j)) \<and>
     (\<forall>j<i. \<not> atLeastRemaining (keys ! j) (keys ! i))"
proof (induction keys)
  case Nil
  then show ?case by simp
next
  case (Cons x xs)
  show ?case
  proof (cases "xs = []")
    case True
    then show ?thesis by (simp add: sortArray_def atLeastRemaining_refl)
  next
    case False
    with Cons.IH obtain i rest where i: "i < length xs"
      and srt: "sortArray exhaustCompare xs = xs ! i # rest"
      and mx: "\<forall>j<length xs. atLeastRemaining (xs ! i) (xs ! j)"
      and fst: "\<forall>j<i. \<not> atLeastRemaining (xs ! j) (xs ! i)"
      by blast
    show ?thesis
    proof (cases "atLeastRemaining x (xs ! i)")
      case True
      have "sortArray exhaustCompare (x # xs) = (x # xs) ! 0 # xs ! i # rest"
        using True srt by (simp add: sortArray_Cons exhaustCompare_positive)
      moreover have "\<forall>j<length (x # xs). atLeastRemaining ((x # xs) ! 0) ((x # xs) ! j)"
      proof (intro allI impI)
        fix j assume "j < length (x # xs)"
        then show "atLeastRemaining ((x # xs) ! 0) ((x # xs) ! j)"
          using mx True atLeastRemaining_trans atLeastRemaining_refl
          by (cases j) auto
      qed
      ultimately show ?thesis by (intro exI[of _ 0]) auto
    next
      case False
      have "sortArray exhaustCompare (x # xs) =
              (x # xs) ! Suc i # insertSorted exhaustCompare x rest"
        using False srt by (simp add: sortArray_Cons exhaustCompare_positive)
      moreover have "\<forall>j<length (x # xs). atLeastRemaining ((x # xs) ! Suc i) ((x # xs) ! j)"
      proof (intro allI impI)
        fix j assume "j < length (x # xs)"
        then show "atLeastRemaining ((x # xs) ! Suc i) ((x # xs) ! j)"
          using mx False atLeastRemaining_total by (cases j) auto
      qed
      moreover have "\<forall>j<Suc i. \<not> atLeastRemaining ((x # xs) ! j) ((x # xs) ! Suc i)"
      proof (intro allI impI)
        fix j assume "j < Suc i"
        then show "\<not> atLeastRemaining ((x # xs) ! j) ((x # xs) ! Suc i)"
          using fst False by (cases j) auto
      qed
      ultimately show ?thesis using i by (intro exI[of _ "Suc i"]) auto
    qed
  qed
qed

lemma selectExhaustFirst_spec:
  "keys \<noteq> [] \<Longrightarrow>
   \<exists>i<length keys. selectExhaustFirst keys = Some (keys ! i) \<and>
     (\<forall>j<length keys. atLeastRemaining (keys ! i) (keys ! j)) \<and>
     (\<forall>j<i. \<not> atLeastRemaining (keys ! j) (keys ! i))"
proof -
  assume "keys \<noteq> []"
  from sortArray_exhaust_head[OF this] obtain i rest where
    "i < length keys" "sortArray exhaustCompare keys = keys ! i # rest"
    "\<forall>j<length keys. atLeastRemaining (keys ! i) (keys ! j)"
    "\<forall>j<i. \<not> atLeastRemaining (keys ! j) (keys ! i)" by blast
  then show ?thesis by (auto simp: selectExhaustFirst_def)
qed

subsection \<open>Filter, round-robin step and the shape of selectKey\<close>

lemma endsWithStar_iff: "endsWithStar a \<longleftrightarrow> (\<exists>p. a = p @ ''*'')"
  unfolding endsWithStar_def
  by (metis last_snoc snoc_eq_iff_butlast)

lemma modelAllowed_iff:
  "modelAllowed m a \<longleftrightarrow> a = m \<or> a = ''*'' \<or> (\<exists>p. a = p @ ''*'' \<and> prefix p m)"
  unfolding modelAllowed_def endsWithStar_iff by auto

lemma keyEligible_iff:
  "keyEligible rm k \<longleftrightarrow> quotaOk k \<and> (truthy rm \<longrightarrow> modelOk (the rm) k)"
  unfolding keyEligible_def quotaOk_def modelOk_def list_ex_iff modelAllowed_iff
  by (auto split: option.splits)

lemma resetDailyUsageIfNeeded_fst:
  "fst (resetDailyUsageIfNeeded keys today s) = resetView today keys"
  by (simp add: resetDailyUsageIfNeeded_def resetView_def Let_def)

lemma selectRoundRobin_nonempty:
  "keys \<noteq> [] \<Longrightarrow>
   selectRoundRobin keys prio s =
     (Some (keys ! (rrCounters s (provider (hd keys), prio) mod length keys)),
      s\<lparr>rrCounters := (rrCounters s)((provider (hd keys), prio) :=
                          rrCounters s (provider (hd keys), prio) + 1)\<rparr>)"
  by (cases keys) (simp_all add: selectRoundRobin_def getNextRoundRobinIndex_def Let_def)

lemma selectKeyFromGroup_Some:
  assumes "keys \<noteq> []"
  shows "\<exists>k s'. selectKeyFromGroup keys prio strategy s = (Some k, s') \<and> k \<in> set keys \<and>
           apiKeys s' = apiKeys s \<and> usageLogs s' = usageLogs s"
proof (cases strategy)
  case ExhaustFirst
  from selectExhaustFirst_spec[OF assms] obtain i where
    "i < length keys" "selectExhaustFirst keys = Some (keys ! i)" by blast
  then show ?thesis using assms ExhaustFirst by (simp add: selectKeyFromGroup_def)
next
  case RoundRobin
  have "rrCounters s (provider (hd keys), prio) mod length keys < length keys"
    using assms by simp
  then show ?thesis using assms RoundRobin
    by (simp add: selectKeyFromGroup_def selectRoundRobin_nonempty)
qed

lemma lowestGroup_nonempty: "keys \<noteq> [] \<Longrightarrow> lowestGroup keys \<noteq> []"
proof -
  assume "keys \<noteq> []"
  then have "Min (priority ` set keys) \<in> priority ` set keys"
    by (intro Min_in) auto
  then obtain k where "k \<in> set keys" "priority k = Min (priority ` set keys)" by force
  then show ?thesis by (auto simp: lowestGroup_def filter_empty_conv)
qed

lemma selectFromGroups_lowest:
  assumes "keys \<noteq> []"
  shows "selectFromGroups (groupKeysByPriority keys) strategy s =
           selectKeyFromGroup (lowestGroup keys) (Min (priority ` set keys)) strategy s"
proof -
  from groupKeysByPriority_hd[OF assms] obtain rest where
    g: "groupKeysByPriority keys = (Min (priority ` set keys), lowestGroup keys) # rest"
    by (auto simp: lowestGroup_def)
  from selectKeyFromGroup_Some[OF lowestGroup_nonempty[OF assms]] obtain k s' where
    "selectKeyFromGroup (lowestGroup keys) (Min (priority ` set keys)) strategy s = (Some k, s')"
    by blast
  then show ?thesis by (simp add: g)
qed

lemma selectKey_unfold:
  "selectKey strategy today ctx s =
     (if eligibleKeys today ctx s = [] then
        (Inl (contextError ctx), snd (resetDailyUsageIfNeeded (findMany ctx s) today s))
      else
        (case selectKeyFromGroup (lowestGroup (eligibleKeys today ctx s))
                (Min (priority ` set (eligibleKeys today ctx s))) strategy
                (snd (resetDailyUsageIfNeeded (findMany ctx s) today s)) of
           (Some selectedKey, s2) \<Rightarrow>
             (Inr \<lparr>key = selectedKey,
                   resolvedModel = resolveModel (requestedModel ctx) selectedKey\<rparr>, s2)
         | (None, s2) \<Rightarrow> (Inl (contextError ctx), s2)))"
proof (cases "findMany ctx s = []")
  case True
  then show ?thesis
    by (simp add: selectKey_def eligibleKeys_def resetView_def filterEligibleKeys_def
        resetDailyUsageIfNeeded_def)
next
  case False
  obtain s1 where r: "resetDailyUsageIfNeeded (findMany ctx s) today s =
                        (resetView today (findMany ctx s), s1)"
    using resetDailyUsageIfNeeded_fst[of "findMany ctx s" today s]
    by (cases "resetDailyUsageIfNeeded (findMany ctx s) today s") simp
  show ?thesis
  proof (cases "eligibleKeys today ctx s = []")
    case True
    then show ?thesis using False r
      by (simp add: selectKey_def eligibleKeys_def)
  next
    case ne: False
    have e: "filterEligibleKeys (resetView today (findMany ctx s)) (requestedModel ctx) =
               eligibleKeys today ctx s"
      by (simp add: eligibleKeys_def)
    show ?thesis using False ne
      by (simp add: selectKey_def r e selectFromGroups_lowest[OF ne] Let_def)
  qed
qed

subsection \<open>Round-robin indices\<close>

lemma mod_add_cancel_nat:
  fixes c x y k :: nat
  assumes "(c + x) mod k = (c + y) mod k" "x < k" "y < k"
  shows "x = y"
proof -
  let ?r = "c mod k"
  have k: "0 < k" using assms by simp
  have r: "?r < k" using k by simp
  have fx: "(c + x) mod k = (if ?r + x < k then ?r + x else ?r + x - k)"
  proof -
    have "(c + x) mod k = (?r + x) mod k" by (simp add: mod_add_left_eq)
    also have "\<dots> = (if ?r + x < k then ?r + x else ?r + x - k)"
    proof (cases "?r + x < k")
      case True
      then show ?thesis by simp
    next
      case False
      then have "k \<le> ?r + x" by simp
      then have "(?r + x) mod k = (?r + x - k) mod k" by (rule le_mod_geq)
      moreover have "?r + x - k < k" using r assms(2) by linarith
      ultimately show ?thesis using False by simp
    qed
    finally show ?thesis .
  qed
  have fy: "(c + y) mod k = (if ?r + y < k then ?r + y else ?r + y - k)"
  proof -
    have "(c + y) mod k = (?r + y) mod k" by (simp add: mod_add_left_eq)
    also have "\<dots> = (if ?r + y < k then ?r + y else ?r + y - k)"
    proof (cases "?r + y < k")
      case True
      then show ?thesis by simp
    next
      case False
      then have "k \<le> ?r + y" by simp
      then have "(?r + y) mod k = (?r + y - k) mod k" by (rule le_mod_geq)
      moreover have "?r + y - k < k" using r assms(3) by linarith
      ultimately show ?thesis using False by simp
    qed
    finally show ?thesis .
  qed
  from assms(1) have "(if ?r + x < k then ?r + x else ?r + x - k) =
                      (if ?r + y < k then ?r + y else ?r + y - k)"
    by (simp only: fx fy)
  then show ?thesis using r assms(2,3) by (auto split: if_splits)
qed

lemma count_list_distinct: "distinct xs \<Longrightarrow> x \<in> set xs \<Longrightarrow> count_list xs x = 1"
  by (induction xs) (auto simp: count_list_0_iff)

lemma residues_window:
  assumes "0 < k" "i < k"
  shows "count_list (map (\<lambda>j. (c + j) mod k) [0..<k]) i = 1"
proof -
  let ?f = "\<lambda>j. (c + j) mod k"
  have inj: "inj_on ?f {0..<k}"
  proof (rule inj_onI)
    fix x y assume "x \<in> {0..<k}" "y \<in> {0..<k}" "(c + x) mod k = (c + y) mod k"
    then show "x = y" using mod_add_cancel_nat[of c x k y] by simp
  qed
  then have d: "distinct (map ?f [0..<k])" by (simp add: distinct_map)
  have sub: "set (map ?f [0..<k]) \<subseteq> {0..<k}" using assms by auto
  have "card (set (map ?f [0..<k])) = length (map ?f [0..<k])"
    using d by (rule distinct_card)
  then have "card (set (map ?f [0..<k])) = k" by simp
  then have "set (map ?f [0..<k]) = {0..<k}"
    using sub by (simp add: card_subset_eq)
  then have "i \<in> set (map ?f [0..<k])" using assms by simp
  with d show ?thesis by (rule count_list_distinct)
qed

lemma residues_count:
  assumes "0 < k" "i < k"
  shows "count_list (map (\<lambda>j. (c + j) mod k) [0..<k * m]) i = m"
proof (induction m)
  case 0
  then show ?case by simp
next
  case (Suc m)
  have split: "[0..<k * Suc m] = [0..<k * m] @ map (\<lambda>j. j + k * m) [0..<k]"
  proof -
    have "[0..<k * Suc m] = [0..<k * m + k]" by (simp only: mult_Suc_right add.commute)
    also have "\<dots> = [0..<k * m] @ [k * m..<k * m + k]"
      using upt_add_eq_append[of 0 "k * m" k] by simp
    also have "[k * m..<k * m + k] = map (\<lambda>j. j + k * m) [0..<k]"
      by (simp only: map_add_upt add.commute)
    finally show ?thesis .
  qed
  have "count_list (map (\<lambda>j. (c + j) mod k) (map (\<lambda>j. j + k * m) [0..<k])) i =
        count_list (map (\<lambda>j. ((c + k * m) + j) mod k) [0..<k]) i"
    by (simp only: map_map o_def add.assoc) (simp only: add.commute)
  also have "\<dots> = 1" by (rule residues_window[OF assms])
  finally have w: "count_list (map (\<lambda>j. (c + j) mod k) (map (\<lambda>j. j + k * m) [0..<k])) i = 1" .
  show ?case
    by (simp only: split map_append count_list_append w Suc.IH)
qed


lemma upt_0_Suc_map: "[0..<Suc n] = 0 # map Suc [0..<n]"
  by (simp add: upt_conv_Cons map_Suc_upt del: upt_Suc)

lemma roundRobinSelections_indices:
  assumes "keys \<noteq> []"
  shows "fst (roundRobinSelections n keys prio s) =
           map (\<lambda>i. Some (keys ! i))
             (roundRobinIndices (rrCounters s (provider (hd keys), prio)) (length keys) n)"
proof (induction n arbitrary: s)
  case 0
  then show ?case by (simp add: roundRobinIndices_def)
next
  case (Suc n)
  let ?c = "rrCounters s (provider (hd keys), prio)"
  let ?s' = "s\<lparr>rrCounters := (rrCounters s)((provider (hd keys), prio) := ?c + 1)\<rparr>"
  have "fst (roundRobinSelections (Suc n) keys prio s) =
          Some (keys ! (?c mod length keys)) # fst (roundRobinSelections n keys prio ?s')"
    by (simp add: selectRoundRobin_nonempty[OF assms] split_beta)
  also have "fst (roundRobinSelections n keys prio ?s') =
      map (\<lambda>i. Some (keys ! i)) (roundRobinIndices (?c + 1) (length keys) n)"
    by (simp add: Suc.IH)
  also have "Some (keys ! (?c mod length keys)) #
               map (\<lambda>i. Some (keys ! i)) (roundRobinIndices (?c + 1) (length keys) n) =
             map (\<lambda>i. Some (keys ! i)) (roundRobinIndices ?c (length keys) (Suc n))"
    unfolding roundRobinIndices_def
    by (simp only: upt_0_Suc_map list.map map_map o_def add_0_right add_Suc_right add_Suc
        Suc_eq_plus1[symmetric])
  finally show ?case .
qed

subsection \<open>Exhaust-first selection\<close>

lemma findMany_sorted: "sorted (map (\<lambda>k. (priority k, usedToday k)) (findMany ctx s))"
  unfolding findMany_def by (rule sorted_sort_key)

lemma resetView_priority: "map priority (resetView today' ks) = map priority ks"
  by (induction ks) (simp_all add: resetView_def resetKey_def)

lemma filter_resetView:
  "filter P (resetView today' ks) =
     resetView today' (filter (\<lambda>k. P (if isStale today' k then resetKey today' k else k)) ks)"
  by (induction ks) (simp_all add: resetView_def)

lemma lowestGroup_query_order:
  "\<exists>stored. lowestGroup (eligibleKeys today' ctx s) = resetView today' stored \<and>
            subseq stored (findMany ctx s) \<and>
            sorted (map (\<lambda>k. (priority k, usedToday k)) stored)"
proof -
  let ?Q = "\<lambda>k. priority k = Min (priority ` set (eligibleKeys today' ctx s))"
  let ?f = "\<lambda>k. if isStale today' k then resetKey today' k else k"
  let ?stored = "filter (\<lambda>k. ?Q (?f k))
                   (filter (\<lambda>k. keyEligible (requestedModel ctx) (?f k)) (findMany ctx s))"
  have "lowestGroup (eligibleKeys today' ctx s) = resetView today' ?stored"
    by (simp only: lowestGroup_def eligibleKeys_def filterEligibleKeys_def filter_resetView)
  moreover have "subseq ?stored (findMany ctx s)"
    by (rule subseq_order.trans[OF subseq_filter_left subseq_filter_left])
  moreover have "sorted (map (\<lambda>k. (priority k, usedToday k)) ?stored)"
    by (intro sorted_filter findMany_sorted)
  ultimately show ?thesis by blast
qed

text \<open>
  Claim C1, amended in the listing order. Whenever some key survives the query, the lazy
  reset and the filter, \<open>selectKey\<close> under the exhaust-first strategy returns a key of
  the group of lowest priority value. The returned key has a remaining quota
  \<open>dailyLimit - usedToday\<close> at least as great as every key of the group, a key
  without \<open>dailyLimit\<close> counting as infinite, and every key listed before it has
  strictly less: among the keys of greatest remaining quota, two unlimited keys included,
  the first in listing order is returned. The listing order of the group is the order of
  the candidate query: the group is the reset view of rows \<open>stored\<close> that form a
  subsequence of the query result and are sorted by priority and then by the
  \<open>usedToday\<close> they had in the table when the query ran, before the lazy reset.
\<close>

theorem exhaust_first_greatest_remaining:
  assumes "eligibleKeys today ctx s \<noteq> []"
  shows "(\<exists>i < length (lowestGroup (eligibleKeys today ctx s)).
           fst (selectKey ExhaustFirst today ctx s) =
             Inr \<lparr>key = lowestGroup (eligibleKeys today ctx s) ! i,
                  resolvedModel = resolveModel (requestedModel ctx)
                                    (lowestGroup (eligibleKeys today ctx s) ! i)\<rparr> \<and>
           (\<forall>j < length (lowestGroup (eligibleKeys today ctx s)).
              atLeastRemaining (lowestGroup (eligibleKeys today ctx s) ! i)
                               (lowestGroup (eligibleKeys today ctx s) ! j)) \<and>
           (\<forall>j < i. \<not> atLeastRemaining (lowestGroup (eligibleKeys today ctx s) ! j)
                                       (lowestGroup (eligibleKeys today ctx s) ! i))) \<and>
         (\<exists>stored. lowestGroup (eligibleKeys today ctx s) = resetView today stored \<and>
                   subseq stored (findMany ctx s) \<and>
                   sorted (map (\<lambda>k. (priority k, usedToday k)) stored))"
proof -
  let ?g = "lowestGroup (eligibleKeys today ctx s)"
  have ne: "?g \<noteq> []" using assms by (rule lowestGroup_nonempty)
  from selectExhaustFirst_spec[OF ne] obtain i where i: "i < length ?g"
    and sel: "selectExhaustFirst ?g = Some (?g ! i)"
    and mx: "\<forall>j<length ?g. atLeastRemaining (?g ! i) (?g ! j)"
    and fs: "\<forall>j<i. \<not> atLeastRemaining (?g ! j) (?g ! i)" by blast
  have "fst (selectKey ExhaustFirst today ctx s) =
          Inr \<lparr>key = ?g ! i, resolvedModel = resolveModel (requestedModel ctx) (?g ! i)\<rparr>"
    using assms ne sel by (simp add: selectKey_unfold selectKeyFromGroup_def)
  with i mx fs have a: "\<exists>i < length ?g.
           fst (selectKey ExhaustFirst today ctx s) =
             Inr \<lparr>key = ?g ! i, resolvedModel = resolveModel (requestedModel ctx) (?g ! i)\<rparr> \<and>
           (\<forall>j < length ?g. atLeastRemaining (?g ! i) (?g ! j)) \<and>
           (\<forall>j < i. \<not> atLeastRemaining (?g ! j) (?g ! i))" by blast
  show ?thesis using a lowestGroup_query_order[of today ctx s] by (rule conjI)
qed

theorem exhaust_first_greatest_remaining_witness:
  "eligibleKeys 100 ctxAuto storeXY \<noteq> [] \<and>
   findMany ctxAuto storeXY = [keyY, keyX] \<and>
   lowestGroup (eligibleKeys 100 ctxAuto storeXY) =
     [keyY, keyX\<lparr>usedToday := 0, resetDate := 100\<rparr>] \<and>
   fst (selectKey ExhaustFirst 100 ctxAuto storeXY) =
     Inr \<lparr>key = keyY, resolvedModel = ''gpt-4o''\<rparr> \<and>
   (\<exists>i < length (lowestGroup (eligibleKeys 100 ctxAuto storeXY)).
           fst (selectKey ExhaustFirst 100 ctxAuto storeXY) =
             Inr \<lparr>key = lowestGroup (eligibleKeys 100 ctxAuto storeXY) ! i,
                  resolvedModel = resolveModel (requestedModel ctxAuto)
                                    (lowestGroup (eligibleKeys 100 ctxAuto storeXY) ! i)\<rparr> \<and>
           (\<forall>j < length (lowestGroup (eligibleKeys 100 ctxAuto storeXY)).
              atLeastRemaining (lowestGroup (eligibleKeys 100 ctxAuto storeXY) ! i)
                               (lowestGroup (eligibleKeys 100 ctxAuto storeXY) ! j)) \<and>
           (\<forall>j < i. \<not> atLeastRemaining (lowestGroup (eligibleKeys 100 ctxAuto storeXY) ! j)
                                       (lowestGroup (eligibleKeys 100 ctxAuto storeXY) ! i))) \<and>
   (\<exists>stored. lowestGroup (eligibleKeys 100 ctxAuto storeXY) = resetView 100 stored \<and>
             subseq stored (findMany ctxAuto storeXY) \<and>
             sorted (map (\<lambda>k. (priority k, usedToday k)) stored))"
proof -
  have h: "eligibleKeys 100 ctxAuto storeXY \<noteq> []" by code_simp
  have q: "findMany ctxAuto storeXY = [keyY, keyX]" by code_simp
  have g: "lowestGroup (eligibleKeys 100 ctxAuto storeXY) =
             [keyY, keyX\<lparr>usedToday := 0, resetDate := 100\<rparr>]" by code_simp
  have r: "fst (selectKey ExhaustFirst 100 ctxAuto storeXY) =
             Inr \<lparr>key = keyY, resolvedModel = ''gpt-4o''\<rparr>" by code_simp
  note T = exhaust_first_greatest_remaining[OF h]
  show ?thesis using h q g r T[THEN conjunct1] T[THEN conjunct2] by (intro conjI)
qed

text \<open>
  Claim C1 as stated fails where the lazy reset changes \<open>usedToday\<close>. Key X (limit
  10, 5 used, stale) and key Y (limit 13, 3 used) are listed as Y, X by the query; after
  the reset X has 0 used, both have 10 remaining, and the group is still listed as Y, X.
  The key returned is Y, not the key X that comes first by ascending \<open>usedToday\<close>.
\<close>

theorem exhaust_first_tie_not_by_usedToday:
  "lowestGroup (eligibleKeys 100 ctxAuto storeXY) =
     [keyY, keyX\<lparr>usedToday := 0, resetDate := 100\<rparr>] \<and>
   priority (keyX\<lparr>usedToday := 0, resetDate := 100\<rparr>) = priority keyY \<and>
   usedToday (keyX\<lparr>usedToday := 0, resetDate := 100\<rparr>) < usedToday keyY \<and>
   atLeastRemaining (keyX\<lparr>usedToday := 0, resetDate := 100\<rparr>) keyY \<and>
   atLeastRemaining keyY (keyX\<lparr>usedToday := 0, resetDate := 100\<rparr>) \<and>
   fst (selectKey ExhaustFirst 100 ctxAuto storeXY) =
     Inr \<lparr>key = keyY, resolvedModel = ''gpt-4o''\<rparr>"
  by code_simp

subsection \<open>Failure of selectKey\<close>

text \<open>
  With respect to the candidates of its own query: \<open>selectKey\<close> either returns a
  selection or fails with \<open>NoEligibleKeyError\<close>, built from the requested model and
  provider at each of its three gates; it fails exactly when no key is left after the
  query, the lazy reset, the quota filter and the model filter, and it raises no other
  error.
\<close>

lemma selectKey_fails_iff_no_eligible:
  "(fst (selectKey strategy today ctx s) =
      Inl (NoEligibleKeyError (requestedModel ctx) (Some (providerString (requestedProvider ctx))))
    \<longleftrightarrow> eligibleKeys today ctx s = []) \<and>
   (eligibleKeys today ctx s \<noteq> [] \<longrightarrow> (\<exists>sel. fst (selectKey strategy today ctx s) = Inr sel)) \<and>
   (\<forall>e. fst (selectKey strategy today ctx s) = Inl e \<longrightarrow>
        e = NoEligibleKeyError (requestedModel ctx) (Some (providerString (requestedProvider ctx))))"
proof (cases "eligibleKeys today ctx s = []")
  case True
  then show ?thesis by (simp add: selectKey_unfold contextError_def)
next
  case False
  from selectKeyFromGroup_Some[OF lowestGroup_nonempty[OF False]] obtain k s' where
    "selectKeyFromGroup (lowestGroup (eligibleKeys today ctx s))
       (Min (priority ` set (eligibleKeys today ctx s))) strategy
       (snd (resetDailyUsageIfNeeded (findMany ctx s) today s)) = (Some k, s')"
    by blast
  then show ?thesis using False by (simp add: selectKey_unfold)
qed

lemma selectKey_fails_iff_no_eligible_example:
  "eligibleKeys 100 ctxAuto store0 \<noteq> [] \<and>
   (\<exists>sel. fst (selectKey RoundRobin 100 ctxAuto store0) = Inr sel) \<and>
   eligibleKeys 100 ctxAnthropic store0 = [] \<and>
   fst (selectKey RoundRobin 100 ctxAnthropic store0) =
     Inl (NoEligibleKeyError None (Some ''anthropic''))"
proof -
  have h1: "eligibleKeys 100 ctxAuto store0 \<noteq> []" by code_simp
  have h2: "eligibleKeys 100 ctxAnthropic store0 = []" by code_simp
  have m: "requestedModel ctxAnthropic = None"
    "providerString (requestedProvider ctxAnthropic) = ''anthropic''"
    by (simp_all add: ctxAnthropic_def)
  have a: "\<exists>sel. fst (selectKey RoundRobin 100 ctxAuto store0) = Inr sel"
    using h1 selectKey_fails_iff_no_eligible[of RoundRobin 100 ctxAuto store0] by blast
  have "fst (selectKey RoundRobin 100 ctxAnthropic store0) =
          Inl (NoEligibleKeyError (requestedModel ctxAnthropic)
                 (Some (providerString (requestedProvider ctxAnthropic))))"
    using h2 selectKey_fails_iff_no_eligible[of RoundRobin 100 ctxAnthropic store0] by blast
  then have b: "fst (selectKey RoundRobin 100 ctxAnthropic store0) =
                  Inl (NoEligibleKeyError None (Some ''anthropic''))"
    by (simp only: m)
  show ?thesis using h1 h2 a b by blast
qed

text \<open>
  The query of the code is the candidate condition of the spec unless a specific provider
  is requested together with a non-empty \<open>allowedProviders\<close>.
\<close>

lemma whereConditions_specCandidate:
  "requestedProvider ctx = auto \<or> \<not> nonEmptyList (allowedProviders ctx) \<Longrightarrow>
   whereConditions ctx k = specCandidate ctx k"
  by (cases "requestedProvider ctx")
     (auto simp: whereConditions_def specCandidate_def providerCondition_def priorityCondition_def)


text \<open>
  Claim C2, at a concrete input. The request asks for the provider \<open>openai\<close> and
  allows only the provider \<open>anthropic\<close>; the table holds three enabled openai keys.
  No key satisfies the candidate condition of the spec, so \<open>selectKey\<close> should fail
  with \<open>NoEligibleKeyError\<close>. In the code the \<open>provider\<close> entry for the requested
  provider overwrites the one for \<open>allowedProviders\<close>: the query returns all three
  keys and \<open>selectKey\<close> returns key B.
\<close>

theorem selectKey_ignores_allowed_providers:
  "filter (specCandidate ctxConflict) (apiKeys store0) = [] \<and>
   findMany ctxConflict store0 = [keyB, keyA, keyC] \<and>
   fst (selectKey ExhaustFirst 100 ctxConflict store0) =
     Inr \<lparr>key = keyB, resolvedModel = ''gpt-4o''\<rparr>"
  by code_simp

subsection \<open>The eligibility filter\<close>

text \<open>
  Claim C3. The eligibility filter keeps exactly the keys that pass both tests, in their
  order. Quota: \<open>dailyLimit\<close> is unset, or \<open>usedToday < dailyLimit\<close>. Model, only
  when a model is requested (a non-empty string, by the truthiness test of the source):
  \<open>allowedModels\<close> is empty, or contains \<open>*\<close>, or contains the requested model,
  or contains an entry \<open>p*\<close> such that the requested model starts with \<open>p\<close>.
\<close>

theorem filterEligibleKeys_keeps_iff:
  "filterEligibleKeys keys requested =
     filter (\<lambda>k.
        (case dailyLimit k of None \<Rightarrow> True | Some D \<Rightarrow> usedToday k < D) \<and>
        (truthy requested \<longrightarrow>
           allowedModels k = [] \<or> ''*'' \<in> set (allowedModels k) \<or>
           the requested \<in> set (allowedModels k) \<or>
           (\<exists>p. p @ ''*'' \<in> set (allowedModels k) \<and> prefix p (the requested)))) keys"
  unfolding filterEligibleKeys_def
  by (rule filter_cong) (simp_all add: keyEligible_iff quotaOk_def modelOk_def)

theorem filterEligibleKeys_keeps_iff_witness:
  "truthy (Some ''gpt-4o'') \<and>
   filter (\<lambda>k.
        (case dailyLimit k of None \<Rightarrow> True | Some D \<Rightarrow> usedToday k < D) \<and>
        (truthy (Some ''gpt-4o'') \<longrightarrow>
           allowedModels k = [] \<or> ''*'' \<in> set (allowedModels k) \<or>
           the (Some ''gpt-4o'') \<in> set (allowedModels k) \<or>
           (\<exists>p. p @ ''*'' \<in> set (allowedModels k) \<and> prefix p (the (Some ''gpt-4o'')))))
     [keyA, keyC, keyD] = [keyA, keyD] \<and>
   filter (\<lambda>k.
        (case dailyLimit k of None \<Rightarrow> True | Some D \<Rightarrow> usedToday k < D) \<and>
        (truthy (Some ''gpt-4-turbo'') \<longrightarrow>
           allowedModels k = [] \<or> ''*'' \<in> set (allowedModels k) \<or>
           the (Some ''gpt-4-turbo'') \<in> set (allowedModels k) \<or>
           (\<exists>p. p @ ''*'' \<in> set (allowedModels k) \<and> prefix p (the (Some ''gpt-4-turbo'')))))
     [keyA, keyC, keyD] = [keyA, keyD] \<and>
   filter (\<lambda>k.
        (case dailyLimit k of None \<Rightarrow> True | Some D \<Rightarrow> usedToday k < D) \<and>
        (truthy (Some ''gpt-3.5-turbo'') \<longrightarrow>
           allowedModels k = [] \<or> ''*'' \<in> set (allowedModels k) \<or>
           the (Some ''gpt-3.5-turbo'') \<in> set (allowedModels k) \<or>
           (\<exists>p. p @ ''*'' \<in> set (allowedModels k) \<and> prefix p (the (Some ''gpt-3.5-turbo'')))))
     [keyA, keyC, keyD] = [keyA]"
proof -
  have t: "truthy (Some ''gpt-4o'')" by simp
  have a: "filterEligibleKeys [keyA, keyC, keyD] (Some ''gpt-4o'') = [keyA, keyD]" by code_simp
  have b: "filterEligibleKeys [keyA, keyC, keyD] (Some ''gpt-4-turbo'') = [keyA, keyD]" by code_simp
  have c: "filterEligibleKeys [keyA, keyC, keyD] (Some ''gpt-3.5-turbo'') = [keyA]" by code_simp
  show ?thesis
    using t trans[OF filterEligibleKeys_keeps_iff[symmetric] a]
      trans[OF filterEligibleKeys_keeps_iff[symmetric] b]
      trans[OF filterEligibleKeys_keeps_iff[symmetric] c]
    by (intro conjI)
qed
subsection \<open>Lazy reset\<close>

lemma set_findMany: "set (findMany ctx s) = {k \<in> set (apiKeys s). whereConditions ctx k}"
  by (simp add: findMany_def)

lemma selectKey_apiKeys:
  "apiKeys (snd (selectKey strategy today ctx s)) =
     apiKeys (snd (resetDailyUsageIfNeeded (findMany ctx s) today s))"
proof (cases "eligibleKeys today ctx s = []")
  case True
  then show ?thesis by (simp add: selectKey_unfold)
next
  case False
  from selectKeyFromGroup_Some[OF lowestGroup_nonempty[OF False]] obtain k s' where
    "selectKeyFromGroup (lowestGroup (eligibleKeys today ctx s))
       (Min (priority ` set (eligibleKeys today ctx s))) strategy
       (snd (resetDailyUsageIfNeeded (findMany ctx s) today s)) = (Some k, s')"
    "apiKeys s' = apiKeys (snd (resetDailyUsageIfNeeded (findMany ctx s) today s))"
    by blast
  then show ?thesis using False by (simp add: selectKey_unfold)
qed

lemma resetDailyUsageIfNeeded_apiKeys:
  assumes "distinct (map keyId (apiKeys s))"
  shows "apiKeys (snd (resetDailyUsageIfNeeded (findMany ctx s) today s)) =
           map (\<lambda>k. if whereConditions ctx k \<and> resetDate k < today
                     then k\<lparr>usedToday := 0, resetDate := today\<rparr> else k) (apiKeys s)"
proof -
  let ?ids = "map keyId (filter (isStale today) (findMany ctx s))"
  have inj: "inj_on keyId (set (apiKeys s))" using assms by (simp add: distinct_map)
  have mem: "keyId k \<in> set ?ids \<longleftrightarrow> whereConditions ctx k \<and> resetDate k < today"
    if k: "k \<in> set (apiKeys s)" for k
  proof
    assume "keyId k \<in> set ?ids"
    then obtain c where c: "c \<in> set (apiKeys s)" "whereConditions ctx c" "isStale today c"
      "keyId c = keyId k" by (auto simp: set_findMany)
    then have "c = k" using inj k by (auto dest: inj_onD)
    then show "whereConditions ctx k \<and> resetDate k < today" using c by (simp add: isStale_def)
  next
    assume "whereConditions ctx k \<and> resetDate k < today"
    then have "k \<in> set (filter (isStale today) (findMany ctx s))"
      using k by (simp add: set_findMany isStale_def)
    then show "keyId k \<in> set ?ids" by (simp only: set_map) (rule imageI)
  qed
  show ?thesis
  proof (cases "?ids = []")
    case True
    have "\<forall>k\<in>set (apiKeys s). \<not> (whereConditions ctx k \<and> resetDate k < today)"
      using mem True by (metis empty_iff list.set(1))
    then have "map (\<lambda>k. if whereConditions ctx k \<and> resetDate k < today
                     then k\<lparr>usedToday := 0, resetDate := today\<rparr> else k) (apiKeys s) = apiKeys s"
      by (intro map_idI) auto
    then show ?thesis using True by (simp add: resetDailyUsageIfNeeded_def Let_def)
  next
    case False
    have "map (\<lambda>k. if keyId k \<in> set ?ids then resetKey today k else k) (apiKeys s) =
          map (\<lambda>k. if whereConditions ctx k \<and> resetDate k < today
                     then k\<lparr>usedToday := 0, resetDate := today\<rparr> else k) (apiKeys s)"
    proof (rule map_cong[OF refl])
      fix k assume k: "k \<in> set (apiKeys s)"
      show "(if keyId k \<in> set ?ids then resetKey today k else k) =
            (if whereConditions ctx k \<and> resetDate k < today
             then k\<lparr>usedToday := 0, resetDate := today\<rparr> else k)"
      proof (cases "whereConditions ctx k \<and> resetDate k < today")
        case True
        then have "keyId k \<in> set ?ids" using mem[OF k] by blast
        then show ?thesis using True by (simp only: resetKey_def if_True simp_thms)
      next
        case False
        then have "keyId k \<notin> set ?ids" using mem[OF k] by blast
        then show ?thesis using False by (simp only: if_False simp_thms)
      qed
    qed
    then show ?thesis using False
      by (simp add: resetDailyUsageIfNeeded_def Let_def updateMany_def)
  qed
qed

text \<open>
  Claim C4. When the ids of the key table are distinct (\<open>id\<close> is its primary key),
  a call of \<open>selectKey\<close> leaves the table as follows, whatever the strategy and
  whether or not a key is selected: every row that satisfies the candidate query and
  whose \<open>resetDate\<close> is before today has \<open>usedToday = 0\<close> and
  \<open>resetDate = today\<close>; every other row, candidate or not, is unchanged.
\<close>

theorem lazy_reset_frame:
  assumes "distinct (map keyId (apiKeys s))"
  shows "apiKeys (snd (selectKey strategy today ctx s)) =
           map (\<lambda>k. if whereConditions ctx k \<and> resetDate k < today
                     then k\<lparr>usedToday := 0, resetDate := today\<rparr> else k) (apiKeys s)"
  by (simp only: selectKey_apiKeys resetDailyUsageIfNeeded_apiKeys[OF assms])

theorem lazy_reset_frame_witness:
  "distinct (map keyId (apiKeys store0)) \<and>
   findMany ctxFail store0 = [keyC] \<and>
   fst (selectKey ExhaustFirst 100 ctxFail store0) = Inl (NoEligibleKeyError (Some ''claude-3'') (Some ''auto'')) \<and>
   apiKeys (snd (selectKey ExhaustFirst 100 ctxFail store0)) =
     [keyA, keyB, keyC\<lparr>usedToday := 0, resetDate := 100\<rparr>]"
proof -
  have d: "distinct (map keyId (apiKeys store0))" by code_simp
  have q: "findMany ctxFail store0 = [keyC]" by code_simp
  have f: "fst (selectKey ExhaustFirst 100 ctxFail store0) =
             Inl (NoEligibleKeyError (Some ''claude-3'') (Some ''auto''))" by code_simp
  have m: "map (\<lambda>k. if whereConditions ctxFail k \<and> resetDate k < 100
                     then k\<lparr>usedToday := 0, resetDate := 100\<rparr> else k) (apiKeys store0) =
           [keyA, keyB, keyC\<lparr>usedToday := 0, resetDate := 100\<rparr>]" by code_simp
  show ?thesis
    using d q f trans[OF lazy_reset_frame[OF d, of ExhaustFirst 100 ctxFail] m]
    by (intro conjI)
qed
subsection \<open>Round-robin fairness\<close>

text \<open>
  Claim C5. For a non-empty group, one round-robin invocation increments the counter of
  (provider of the first key, priority) and selects the key at index
  (new value - 1) mod group size. Hence \<open>k * m\<close> consecutive selections against an
  unchanged group of size \<open>k\<close> select the keys at the indices
  \<open>(c + j) mod k\<close> for \<open>j < k * m\<close>, \<open>c\<close> being the counter before the
  first invocation, and every index below \<open>k\<close> occurs exactly \<open>m\<close> times.
\<close>

theorem round_robin_even:
  assumes "keys \<noteq> []"
  shows "getNextRoundRobinIndex (provider (hd keys)) prio (length keys) s =
            ((rrCounters s (provider (hd keys), prio) + 1 - 1) mod length keys,
             s\<lparr>rrCounters := (rrCounters s)((provider (hd keys), prio) :=
                                   rrCounters s (provider (hd keys), prio) + 1)\<rparr>) \<and>
         selectRoundRobin keys prio s =
            (Some (keys ! fst (getNextRoundRobinIndex (provider (hd keys)) prio (length keys) s)),
             snd (getNextRoundRobinIndex (provider (hd keys)) prio (length keys) s)) \<and>
         fst (roundRobinSelections (length keys * m) keys prio s) =
           map (\<lambda>i. Some (keys ! i))
             (roundRobinIndices (rrCounters s (provider (hd keys), prio)) (length keys)
                (length keys * m)) \<and>
         (\<forall>i < length keys.
            count_list (roundRobinIndices (rrCounters s (provider (hd keys), prio)) (length keys)
                (length keys * m)) i = m)"
proof (intro conjI)
  show "getNextRoundRobinIndex (provider (hd keys)) prio (length keys) s =
            ((rrCounters s (provider (hd keys), prio) + 1 - 1) mod length keys,
             s\<lparr>rrCounters := (rrCounters s)((provider (hd keys), prio) :=
                                   rrCounters s (provider (hd keys), prio) + 1)\<rparr>)"
    by (simp add: getNextRoundRobinIndex_def Let_def)
  show "selectRoundRobin keys prio s =
            (Some (keys ! fst (getNextRoundRobinIndex (provider (hd keys)) prio (length keys) s)),
             snd (getNextRoundRobinIndex (provider (hd keys)) prio (length keys) s))"
    by (simp add: selectRoundRobin_nonempty[OF assms] getNextRoundRobinIndex_def Let_def)
  show "fst (roundRobinSelections (length keys * m) keys prio s) =
           map (\<lambda>i. Some (keys ! i))
             (roundRobinIndices (rrCounters s (provider (hd keys), prio)) (length keys)
                (length keys * m))"
    by (rule roundRobinSelections_indices[OF assms])
  show "\<forall>i < length keys.
            count_list (roundRobinIndices (rrCounters s (provider (hd keys), prio)) (length keys)
                (length keys * m)) i = m"
    using assms by (simp add: roundRobinIndices_def residues_count)
qed

theorem round_robin_even_witness:
  "[keyB, keyA] \<noteq> [] \<and>
   fst (roundRobinSelections (length [keyB, keyA] * 2) [keyB, keyA] 1 store0) =
     [Some keyB, Some keyA, Some keyB, Some keyA] \<and>
   roundRobinIndices (rrCounters store0 (provider (hd [keyB, keyA]), 1)) (length [keyB, keyA])
     (length [keyB, keyA] * 2) = [0, 1, 0, 1] \<and>
   count_list (roundRobinIndices (rrCounters store0 (provider (hd [keyB, keyA]), 1))
               (length [keyB, keyA]) (length [keyB, keyA] * 2)) 0 = 2 \<and>
   count_list (roundRobinIndices (rrCounters store0 (provider (hd [keyB, keyA]), 1))
               (length [keyB, keyA]) (length [keyB, keyA] * 2)) 1 = 2"
proof -
  have h: "[keyB, keyA] \<noteq> []" by simp
  have a: "fst (roundRobinSelections (length [keyB, keyA] * 2) [keyB, keyA] 1 store0) =
     [Some keyB, Some keyA, Some keyB, Some keyA]" by code_simp
  have b: "roundRobinIndices (rrCounters store0 (provider (hd [keyB, keyA]), 1)) (length [keyB, keyA])
     (length [keyB, keyA] * 2) = [0, 1, 0, 1]" by code_simp
  have c: "\<forall>i < length [keyB, keyA].
            count_list (roundRobinIndices (rrCounters store0 (provider (hd [keyB, keyA]), 1))
               (length [keyB, keyA]) (length [keyB, keyA] * 2)) i = 2"
    using round_robin_even[OF h, of 1 store0 2] by blast
  have c0: "count_list (roundRobinIndices (rrCounters store0 (provider (hd [keyB, keyA]), 1))
               (length [keyB, keyA]) (length [keyB, keyA] * 2)) 0 = 2"
    using c by (rule allE[of _ 0]) simp
  have c1: "count_list (roundRobinIndices (rrCounters store0 (provider (hd [keyB, keyA]), 1))
               (length [keyB, keyA]) (length [keyB, keyA] * 2)) 1 = 2"
    using c by (rule allE[of _ 1]) simp
  show ?thesis using h a b c0 c1 by (intro conjI)
qed

section \<open>Properties of the request router\<close>

subsection \<open>One iteration of the loop\<close>

lemma routeLoop_done:
  "\<not> attempt < maxRetries env \<Longrightarrow>
   routeLoop env request ctx attempt att le s =
     (Inl (fst (allAttemptsFailed env request ctx le s)),
      snd (allAttemptsFailed env request ctx le s), [])"
  by (subst routeLoop.simps) (simp add: split_beta)

lemma routeLoop_success:
  "attempt < maxRetries env \<Longrightarrow>
   tryAttempt env request ctx attempt att s = (Inr res, att', s') \<Longrightarrow>
   routeLoop env request ctx attempt att le s = (Inr res, s', [Attempted attempt None])"
  by (subst routeLoop.simps) simp

lemma routeLoop_abort:
  "attempt < maxRetries env \<Longrightarrow>
   tryAttempt env request ctx attempt att s = (Inl err, att', s') \<Longrightarrow>
   isNonRetryableError err \<Longrightarrow>
   routeLoop env request ctx attempt att le s =
     (Inl (fst (allAttemptsFailed env request ctx (Some err) s')),
      snd (allAttemptsFailed env request ctx (Some err) s'),
      [Attempted attempt (Some err)])"
  by (subst routeLoop.simps) (simp add: split_beta)

lemma routeLoop_retry:
  "attempt < maxRetries env \<Longrightarrow>
   tryAttempt env request ctx attempt att s = (Inl err, att', s') \<Longrightarrow>
   \<not> isNonRetryableError err \<Longrightarrow>
   routeLoop env request ctx attempt att le s =
     (fst (routeLoop env request ctx (attempt + 1) att' (Some err) s'),
      fst (snd (routeLoop env request ctx (attempt + 1) att' (Some err) s')),
      Attempted attempt (Some err)
      # (if attempt + 1 < maxRetries env then [Slept (retryDelayMs env * 2 ^ attempt)] else [])
      @ snd (snd (routeLoop env request ctx (attempt + 1) att' (Some err) s')))"
  by (subst routeLoop.simps) (auto simp: split_beta)

lemma routeLoop_events_empty:
  "snd (snd (routeLoop env request ctx attempt att le s)) = [] \<longleftrightarrow> maxRetries env \<le> attempt"
proof (cases "attempt < maxRetries env")
  case False
  then show ?thesis by (simp add: routeLoop_done)
next
  case True
  obtain r att' s' where t: "tryAttempt env request ctx attempt att s = (r, att', s')"
    by (cases "tryAttempt env request ctx attempt att s") auto
  show ?thesis
  proof (cases r)
    case (Inr res)
    then show ?thesis using True t by (simp add: routeLoop_success)
  next
    case (Inl err)
    then show ?thesis using True t
      by (cases "isNonRetryableError err") (simp_all add: routeLoop_abort routeLoop_retry)
  qed
qed

lemma routeLoop_discipline:
  "retryDiscipline (maxRetries env) (retryDelayMs env) attempt
     (snd (snd (routeLoop env request ctx attempt att le s)))"
proof (induction env request ctx attempt att le s rule: routeLoop.induct)
  case (1 env request ctx attempt att le s)
  show ?case
  proof (cases "attempt < maxRetries env")
    case False
    then show ?thesis by (simp add: routeLoop_done)
  next
    case True
    obtain r att' s' where t: "tryAttempt env request ctx attempt att s = (r, att', s')"
      by (cases "tryAttempt env request ctx attempt att s") auto
    show ?thesis
    proof (cases r)
      case (Inr res)
      with t have "tryAttempt env request ctx attempt att s = (Inr res, att', s')" by simp
      from routeLoop_success[OF True this, of le] show ?thesis using True by simp
    next
      case (Inl err)
      with t have t': "tryAttempt env request ctx attempt att s = (Inl err, att', s')" by simp
      show ?thesis
      proof (cases "isNonRetryableError err")
        case nr: True
        from routeLoop_abort[OF True t' nr, of le] show ?thesis using True nr by simp
      next
        case rt: False
        let ?rest = "snd (snd (routeLoop env request ctx (attempt + 1) att' (Some err) s'))"
        have eq: "snd (snd (routeLoop env request ctx attempt att le s)) =
                    Attempted attempt (Some err)
                    # (if attempt + 1 < maxRetries env
                       then [Slept (retryDelayMs env * 2 ^ attempt)] else []) @ ?rest"
          by (simp only: routeLoop_retry[OF True t' rt, of le] snd_conv)
        show ?thesis
        proof (cases "attempt < maxRetries env - 1")
          case more: True
          have ih: "retryDiscipline (maxRetries env) (retryDelayMs env) (attempt + 1) ?rest"
            by (rule "1.IH"(1)[OF True t'[symmetric] refl refl rt more])
          have ne: "?rest \<noteq> []"
            using more by (simp add: routeLoop_events_empty)
          obtain ev evs where c: "?rest = ev # evs" using ne by (cases ?rest) auto
          have m: "attempt + 1 < maxRetries env" using more by simp
          show ?thesis using ih rt m True unfolding eq c by simp
        next
          case last: False
          then have le: "maxRetries env \<le> attempt + 1" by simp
          then have e: "?rest = []"
            by (simp add: routeLoop_events_empty)
          show ?thesis using rt le True unfolding eq e by simp
        qed
      qed
    qed
  qed
qed


subsection \<open>Event lists that pass the retry test\<close>

lemma retryDiscipline_head:
  "retryDiscipline M d a tr \<Longrightarrow> tr \<noteq> [] \<Longrightarrow> \<exists>out. hd tr = Attempted a out"
  by (induction M d a tr rule: retryDiscipline.induct) auto

lemma retryDiscipline_attempts:
  "retryDiscipline M d a tr \<Longrightarrow> length (filter isAttempt tr) \<le> M - a"
  by (induction M d a tr rule: retryDiscipline.induct) auto

lemma retryDiscipline_nonretryable_last:
  "retryDiscipline M d a tr \<Longrightarrow> k < length tr \<Longrightarrow> tr ! k = Attempted i (Some e) \<Longrightarrow>
   isNonRetryableError e \<Longrightarrow> k + 1 = length tr"
proof (induction M d a tr arbitrary: k rule: retryDiscipline.induct)
  case (3 M d a j out t rest)
  show ?case
  proof (cases k)
    case 0
    then show ?thesis using 3 by (auto split: option.splits)
  next
    case (Suc k')
    show ?thesis
    proof (cases k')
      case 0
      then show ?thesis using 3 Suc by simp
    next
      case (Suc k'')
      then have "k'' + 1 = length rest"
        using 3 \<open>k = Suc k'\<close> by (intro "3.IH") auto
      then show ?thesis using Suc \<open>k = Suc k'\<close> by simp
    qed
  qed
qed auto

lemma retryDiscipline_retried:
  "retryDiscipline M d a tr \<Longrightarrow> k < length tr \<Longrightarrow> tr ! k = Attempted i (Some e) \<Longrightarrow>
   \<not> isNonRetryableError e \<Longrightarrow> i + 1 < M \<Longrightarrow>
   k + 2 < length tr \<and> tr ! (k + 1) = Slept (d * 2 ^ i) \<and> (\<exists>out. tr ! (k + 2) = Attempted (i + 1) out)"
proof (induction M d a tr arbitrary: k rule: retryDiscipline.induct)
  case (3 M d a j out t rest)
  show ?case
  proof (cases k)
    case 0
    from "3.prems"(1) have r: "rest \<noteq> []" "retryDiscipline M d (a + 1) rest" by auto
    from retryDiscipline_head[OF r(2) r(1)] obtain o' where "hd rest = Attempted (a + 1) o'" by blast
    then have "rest ! 0 = Attempted (a + 1) o'" using r(1) by (simp add: hd_conv_nth)
    then show ?thesis using 0 3 r by (auto split: option.splits)
  next
    case (Suc k')
    show ?thesis
    proof (cases k')
      case 0
      then show ?thesis using 3 Suc by simp
    next
      case (Suc k'')
      then have "k'' + 2 < length rest \<and> rest ! (k'' + 1) = Slept (d * 2 ^ i) \<and>
                 (\<exists>out. rest ! (k'' + 2) = Attempted (i + 1) out)"
        using 3 \<open>k = Suc k'\<close> by (intro "3.IH") auto
      then show ?thesis using Suc \<open>k = Suc k'\<close> by simp
    qed
  qed
qed auto

lemma retryDiscipline_slept:
  "retryDiscipline M d a tr \<Longrightarrow> k < length tr \<Longrightarrow> tr ! k = Slept t \<Longrightarrow>
   \<exists>i e. 0 < k \<and> tr ! (k - 1) = Attempted i (Some e) \<and> \<not> isNonRetryableError e \<and>
         i + 1 < M \<and> t = d * 2 ^ i"
proof (induction M d a tr arbitrary: k rule: retryDiscipline.induct)
  case (3 M d a j out t' rest)
  show ?case
  proof (cases k)
    case 0
    then show ?thesis using 3 by simp
  next
    case (Suc k')
    show ?thesis
    proof (cases k')
      case 0
      then show ?thesis using 3 Suc by (auto split: option.splits)
    next
      case (Suc k'')
      then have "\<exists>i e. 0 < k'' \<and> rest ! (k'' - 1) = Attempted i (Some e) \<and>
                   \<not> isNonRetryableError e \<and> i + 1 < M \<and> t = d * 2 ^ i"
        using 3 \<open>k = Suc k'\<close> by (intro "3.IH") auto
      then show ?thesis using Suc \<open>k = Suc k'\<close> by (auto simp: nth_Cons')
    qed
  qed
qed auto

subsection \<open>The failure path\<close>

lemma resetDailyUsageIfNeeded_usageLogs:
  "usageLogs (snd (resetDailyUsageIfNeeded keys today' s)) = usageLogs s"
  by (simp add: resetDailyUsageIfNeeded_def updateMany_def Let_def)

lemma selectKey_usageLogs:
  "usageLogs (snd (selectKey strategy' today' ctx s)) = usageLogs s"
proof (cases "eligibleKeys today' ctx s = []")
  case True
  then show ?thesis by (simp add: selectKey_unfold resetDailyUsageIfNeeded_usageLogs)
next
  case False
  from selectKeyFromGroup_Some[OF lowestGroup_nonempty[OF False]] obtain k s' where
    "selectKeyFromGroup (lowestGroup (eligibleKeys today' ctx s))
       (Min (priority ` set (eligibleKeys today' ctx s))) strategy'
       (snd (resetDailyUsageIfNeeded (findMany ctx s) today' s)) = (Some k, s')"
    "usageLogs s' = usageLogs (snd (resetDailyUsageIfNeeded (findMany ctx s) today' s))"
    by blast
  then show ?thesis using False by (simp add: selectKey_unfold resetDailyUsageIfNeeded_usageLogs)
qed

lemma selectKeyWithFallback_usageLogs:
  "usageLogs (snd (selectKeyWithFallback env attempt ctx att s)) = usageLogs s"
  using selectKey_usageLogs[of "keySelectionStrategy env" "todayAt env attempt" ctx s]
  by (auto simp: selectKeyWithFallback_def split: prod.splits sum.splits)

lemma tryAttempt_failure_usageLogs:
  assumes "tryAttempt env request ctx attempt att s = (Inl err, att', s')"
  shows "usageLogs s' = usageLogs s"
proof -
  obtain r s1 where f: "selectKeyWithFallback env attempt ctx att s = (r, s1)"
    by (cases "selectKeyWithFallback env attempt ctx att s") auto
  have l: "usageLogs s1 = usageLogs s"
    using selectKeyWithFallback_usageLogs[of env attempt ctx att s] f by simp
  show ?thesis using assms f l
    by (auto simp: tryAttempt_def Let_def split: sum.splits option.splits if_splits)
qed

lemma allAttemptsFailed_eq:
  "allAttemptsFailed env request ctx lastError s =
     (thrownFor ctx lastError, s\<lparr>usageLogs := usageLogs s @ [failureEntry env request ctx lastError]\<rparr>)"
  by (simp add: allAttemptsFailed_def thrownFor_def contextError_def logUsage_def Let_def
      split: option.splits Error.splits)

lemma routeLoop_failure:
  "fst (routeLoop env request ctx attempt att le s) = Inl e \<Longrightarrow>
   usageLogs (fst (snd (routeLoop env request ctx attempt att le s))) =
     usageLogs s @ [failureEntry env request ctx
                      (lastAttemptError le (snd (snd (routeLoop env request ctx attempt att le s))))] \<and>
   e = thrownFor ctx (lastAttemptError le (snd (snd (routeLoop env request ctx attempt att le s))))"
proof (induction env request ctx attempt att le s rule: routeLoop.induct)
  case (1 env request ctx attempt att le s)
  show ?case
  proof (cases "attempt < maxRetries env")
    case False
    then show ?thesis using "1.prems" by (simp add: routeLoop_done allAttemptsFailed_eq)
  next
    case True
    obtain r att' s' where t: "tryAttempt env request ctx attempt att s = (r, att', s')"
      by (cases "tryAttempt env request ctx attempt att s") auto
    show ?thesis
    proof (cases r)
      case (Inr res)
      with t have "tryAttempt env request ctx attempt att s = (Inr res, att', s')" by simp
      from routeLoop_success[OF True this, of le] show ?thesis using "1.prems" by simp
    next
      case (Inl err)
      with t have t': "tryAttempt env request ctx attempt att s = (Inl err, att', s')" by simp
      have logs: "usageLogs s' = usageLogs s" by (rule tryAttempt_failure_usageLogs[OF t'])
      show ?thesis
      proof (cases "isNonRetryableError err")
        case nr: True
        from routeLoop_abort[OF True t' nr, of le] show ?thesis using "1.prems" logs
          by (simp add: allAttemptsFailed_eq)
      next
        case rt: False
        let ?next = "routeLoop env request ctx (attempt + 1) att' (Some err) s'"
        note eq = routeLoop_retry[OF True t' rt, of le]
        have f: "fst ?next = Inl e" using "1.prems" by (simp only: eq fst_conv)
        have ih: "usageLogs (fst (snd ?next)) =
                    usageLogs s' @ [failureEntry env request ctx (lastAttemptError (Some err) (snd (snd ?next)))] \<and>
                  e = thrownFor ctx (lastAttemptError (Some err) (snd (snd ?next)))"
        proof (cases "attempt < maxRetries env - 1")
          case True
          show ?thesis by (rule "1.IH"(1)[OF \<open>attempt < maxRetries env\<close> t'[symmetric] refl refl rt True f])
        next
          case False
          show ?thesis by (rule "1.IH"(2)[OF \<open>attempt < maxRetries env\<close> t'[symmetric] refl refl rt False f])
        qed
        show ?thesis using ih logs by (simp only: eq fst_conv snd_conv) simp
      qed
    qed
  qed
qed


lemma isNonRetryableError_iff:
  "isNonRetryableError e \<longleftrightarrow>
     (\<exists>n m c st. e = LLMGatewayError n m c st \<and> 400 \<le> st \<and> st \<le> 499 \<and> st \<noteq> 429)"
  by (cases e) (auto simp: isNonRetryableError_def)

subsection \<open>Retry and backoff\<close>

text \<open>
  Claim C6. Let \<open>tr\<close> be the events of one run of \<open>route\<close>. It holds at most
  \<open>maxRetries\<close> attempts, and the first event is attempt 0. An attempt \<open>i\<close> that
  fails with a retryable error while \<open>i + 1 < maxRetries\<close> is followed by a sleep of
  \<open>retryDelayMs * 2 ^ i\<close> and then by attempt \<open>i + 1\<close>; every sleep of the run is
  of this kind. An attempt that fails with a non-retryable error is the last event: no
  sleep and no further attempt. An error is non-retryable exactly when it is a gateway
  error whose status is in 400..499 and is not 429; gateway errors with any other status
  (5xx, 429) and all other errors are retryable.
\<close>

theorem route_retry_policy:
  assumes "tr = snd (snd (route env request s))"
  shows "length (filter isAttempt tr) \<le> maxRetries env \<and>
         (tr \<noteq> [] \<longrightarrow> (\<exists>out. tr ! 0 = Attempted 0 out)) \<and>
         (\<forall>k i e. k < length tr \<and> tr ! k = Attempted i (Some e) \<and>
                  \<not> isNonRetryableError e \<and> i + 1 < maxRetries env \<longrightarrow>
              k + 2 < length tr \<and> tr ! (k + 1) = Slept (retryDelayMs env * 2 ^ i) \<and>
              (\<exists>out. tr ! (k + 2) = Attempted (i + 1) out)) \<and>
         (\<forall>k i e. k < length tr \<and> tr ! k = Attempted i (Some e) \<and> isNonRetryableError e \<longrightarrow>
              k + 1 = length tr) \<and>
         (\<forall>k t. k < length tr \<and> tr ! k = Slept t \<longrightarrow>
              (\<exists>i e. 0 < k \<and> tr ! (k - 1) = Attempted i (Some e) \<and> \<not> isNonRetryableError e \<and>
                     i + 1 < maxRetries env \<and> t = retryDelayMs env * 2 ^ i)) \<and>
         (\<forall>e. isNonRetryableError e \<longleftrightarrow>
              (\<exists>n m c st. e = LLMGatewayError n m c st \<and> 400 \<le> st \<and> st \<le> 499 \<and> st \<noteq> 429)) \<and>
         retryDiscipline (maxRetries env) (retryDelayMs env) 0 tr"
proof -
  have d: "retryDiscipline (maxRetries env) (retryDelayMs env) 0 tr"
    unfolding assms route_def by (rule routeLoop_discipline)
  have a: "length (filter isAttempt tr) \<le> maxRetries env"
    using retryDiscipline_attempts[OF d] by simp
  have h: "tr \<noteq> [] \<longrightarrow> (\<exists>out. tr ! 0 = Attempted 0 out)"
    using retryDiscipline_head[OF d] by (auto simp: hd_conv_nth)
  have r: "\<forall>k i e. k < length tr \<and> tr ! k = Attempted i (Some e) \<and>
                  \<not> isNonRetryableError e \<and> i + 1 < maxRetries env \<longrightarrow>
              k + 2 < length tr \<and> tr ! (k + 1) = Slept (retryDelayMs env * 2 ^ i) \<and>
              (\<exists>out. tr ! (k + 2) = Attempted (i + 1) out)"
    using retryDiscipline_retried[OF d] by blast
  have n: "\<forall>k i e. k < length tr \<and> tr ! k = Attempted i (Some e) \<and> isNonRetryableError e \<longrightarrow>
              k + 1 = length tr"
    using retryDiscipline_nonretryable_last[OF d] by blast
  have sl: "\<forall>k t. k < length tr \<and> tr ! k = Slept t \<longrightarrow>
              (\<exists>i e. 0 < k \<and> tr ! (k - 1) = Attempted i (Some e) \<and> \<not> isNonRetryableError e \<and>
                     i + 1 < maxRetries env \<and> t = retryDelayMs env * 2 ^ i)"
    using retryDiscipline_slept[OF d] by blast
  show ?thesis using a h r n sl d isNonRetryableError_iff by (intro conjI) blast+
qed

theorem route_retry_policy_witness:
  "snd (snd (route envFail500 requestAuto store0)) =
     [Attempted 0 (Some (ProviderError ''openai'' ''HTTP 500: upstream'' 500)),
      Slept 1000,
      Attempted 1 (Some (ProviderError ''openai'' ''Key already attempted, trying next'' 503)),
      Slept 2000,
      Attempted 2 (Some (ProviderError ''openai'' ''Key already attempted, trying next'' 503))] \<and>
   \<not> isNonRetryableError (ProviderError ''openai'' ''HTTP 500: upstream'' 500) \<and>
   maxRetries envFail500 = 3 \<and>
   snd (snd (route envFail500 requestAuto store0)) ! (0 + 1) =
     Slept (retryDelayMs envFail500 * 2 ^ 0) \<and>
   snd (snd (route envFail400 requestAuto store0)) =
     [Attempted 0 (Some (ProviderError ''openai'' ''HTTP 400: bad request'' 400))] \<and>
   isNonRetryableError (ProviderError ''openai'' ''HTTP 400: bad request'' 400) \<and>
   0 + 1 = length (snd (snd (route envFail400 requestAuto store0)))"
proof -
  let ?e5 = "ProviderError ''openai'' ''HTTP 500: upstream'' 500"
  let ?e4 = "ProviderError ''openai'' ''HTTP 400: bad request'' 400"
  let ?t5 = "snd (snd (route envFail500 requestAuto store0))"
  let ?t4 = "snd (snd (route envFail400 requestAuto store0))"
  have t5: "?t5 =
     [Attempted 0 (Some ?e5), Slept 1000,
      Attempted 1 (Some (ProviderError ''openai'' ''Key already attempted, trying next'' 503)),
      Slept 2000,
      Attempted 2 (Some (ProviderError ''openai'' ''Key already attempted, trying next'' 503))]"
    by code_simp
  have t4: "?t4 = [Attempted 0 (Some ?e4)]" by code_simp
  have r5: "\<not> isNonRetryableError ?e5" by code_simp
  have n4: "isNonRetryableError ?e4" by code_simp
  have m: "maxRetries envFail500 = 3" by (simp add: envFail500_def)
  have p5: "0 < length ?t5 \<and> ?t5 ! 0 = Attempted 0 (Some ?e5) \<and>
            \<not> isNonRetryableError ?e5 \<and> 0 + 1 < maxRetries envFail500"
    using r5 m by (simp add: t5)
  have p4: "0 < length ?t4 \<and> ?t4 ! 0 = Attempted 0 (Some ?e4) \<and> isNonRetryableError ?e4"
    using n4 by (simp add: t4)
  note T5 = route_retry_policy[OF refl, of envFail500 requestAuto store0]
  note R5 = T5[THEN conjunct2, THEN conjunct2, THEN conjunct1, rule_format, of 0 0 "?e5", OF p5]
  have c5: "?t5 ! (0 + 1) = Slept (retryDelayMs envFail500 * 2 ^ 0)"
    using R5 by (rule conjunct1[OF conjunct2])
  note T4 = route_retry_policy[OF refl, of envFail400 requestAuto store0]
  have c4: "0 + 1 = length ?t4"
    by (rule T4[THEN conjunct2, THEN conjunct2, THEN conjunct2, THEN conjunct1, rule_format,
          of 0 0 "?e4", OF p4])
  show ?thesis using t5 t4 r5 n4 m c5 c4 by (intro conjI)
qed

subsection \<open>Terminal failure\<close>

text \<open>
  Claim C7. When \<open>route\<close> ends by throwing, the usage log has grown by exactly one
  entry, a failure entry whose key id is \<open>unknown\<close> (whether or not a key was selected
  during the run) and whose error message is that of the last failed attempt; the error
  thrown is the error of the last failed attempt when that is a gateway error, and a
  \<open>NoEligibleKeyError\<close> for the requested model and provider otherwise.
\<close>

theorem route_terminal_failure:
  assumes "fst (route env request s) = Inl e"
  shows "usageLogs (fst (snd (route env request s))) =
           usageLogs s @ [failureEntry env request (routingContext request)
                            (lastAttemptError None (snd (snd (route env request s))))] \<and>
         logKeyId (failureEntry env request (routingContext request)
                     (lastAttemptError None (snd (snd (route env request s))))) = ''unknown'' \<and>
         \<not> logSuccess (failureEntry env request (routingContext request)
                         (lastAttemptError None (snd (snd (route env request s))))) \<and>
         e = (case lastAttemptError None (snd (snd (route env request s))) of
                Some (LLMGatewayError n m c status) \<Rightarrow> LLMGatewayError n m c status
              | _ \<Rightarrow> NoEligibleKeyError (reqModel request)
                       (Some (providerString (reqProvider request))))"
proof -
  let ?ctx = "routingContext request"
  let ?run = "routeLoop env request ?ctx 0 {} None s"
  have run: "route env request s = ?run" by (simp only: route_def)
  from assms have f: "fst ?run = Inl e" by (simp only: run)
  note r = routeLoop_failure[OF f]
  have ctx: "requestedModel ?ctx = reqModel request" "requestedProvider ?ctx = reqProvider request"
    by (simp_all add: routingContext_def)
  have a: "usageLogs (fst (snd ?run)) =
             usageLogs s @ [failureEntry env request ?ctx (lastAttemptError None (snd (snd ?run)))]"
    using r by (rule conjunct1)
  have b: "e = thrownFor ?ctx (lastAttemptError None (snd (snd ?run)))"
    using r by (rule conjunct2)
  have c: "logKeyId (failureEntry env request ?ctx (lastAttemptError None (snd (snd ?run)))) = ''unknown''"
    by (simp add: failureEntry_def)
  have d: "\<not> logSuccess (failureEntry env request ?ctx (lastAttemptError None (snd (snd ?run))))"
    by (simp add: failureEntry_def)
  have b': "e = (case lastAttemptError None (snd (snd ?run)) of
                Some (LLMGatewayError n m c status) \<Rightarrow> LLMGatewayError n m c status
              | _ \<Rightarrow> NoEligibleKeyError (reqModel request)
                       (Some (providerString (reqProvider request))))"
    using b by (simp only: thrownFor_def ctx)
  show ?thesis unfolding run using a b' c d by (intro conjI)
qed

theorem route_terminal_failure_witness:
  "fst (route envPlain requestAuto store0) = Inl (NoEligibleKeyError None (Some ''auto'')) \<and>
   lastAttemptError None (snd (snd (route envPlain requestAuto store0))) =
     Some (PlainError ''socket hang up'') \<and>
   usageLogs (fst (snd (route envPlain requestAuto store0))) =
     usageLogs store0 @ [failureEntry envPlain requestAuto (routingContext requestAuto)
                            (Some (PlainError ''socket hang up''))] \<and>
   fst (route envFail400 requestAuto store0) =
     Inl (ProviderError ''openai'' ''HTTP 400: bad request'' 400) \<and>
   usageLogs (fst (snd (route envFail400 requestAuto store0))) =
     usageLogs store0 @ [failureEntry envFail400 requestAuto (routingContext requestAuto)
                            (Some (ProviderError ''openai'' ''HTTP 400: bad request'' 400))]"
proof -
  have f1: "fst (route envPlain requestAuto store0) = Inl (NoEligibleKeyError None (Some ''auto''))"
    by code_simp
  have l1: "lastAttemptError None (snd (snd (route envPlain requestAuto store0))) =
              Some (PlainError ''socket hang up'')" by code_simp
  have f2: "fst (route envFail400 requestAuto store0) =
              Inl (ProviderError ''openai'' ''HTTP 400: bad request'' 400)" by code_simp
  have l2: "lastAttemptError None (snd (snd (route envFail400 requestAuto store0))) =
              Some (ProviderError ''openai'' ''HTTP 400: bad request'' 400)" by code_simp
  have u1: "usageLogs (fst (snd (route envPlain requestAuto store0))) =
     usageLogs store0 @ [failureEntry envPlain requestAuto (routingContext requestAuto)
                            (Some (PlainError ''socket hang up''))]"
    using route_terminal_failure[OF f1] by (simp only: l1)
  have u2: "usageLogs (fst (snd (route envFail400 requestAuto store0))) =
     usageLogs store0 @ [failureEntry envFail400 requestAuto (routingContext requestAuto)
                            (Some (ProviderError ''openai'' ''HTTP 400: bad request'' 400))]"
    using route_terminal_failure[OF f2] by (simp only: l2)
  show ?thesis using f1 l1 u1 f2 u2 by (intro conjI)
qed


section \<open>Properties of the queue worker\<close>

lemma jobResultOf_client: "clientError err \<Longrightarrow> jobResultOf (Inl err) = Inr (failureResult err)"
  by (cases err) (auto simp: clientError_def jobResultOf_def failureResult_def)

lemma jobResultOf_other: "\<not> clientError err \<Longrightarrow> jobResultOf (Inl err) = Inl err"
  by (cases err) (auto simp: clientError_def jobResultOf_def)

text \<open>
  Claim C8. When the router throws a gateway error whose status is below 500, the
  processor returns a result with \<open>success = false\<close> that carries the error's
  message; the broker then completes the job with this result after this one run, with no
  further attempt. When the router throws any other error, the processor throws the same
  error to the broker, which runs the job again while attempts remain and fails it
  otherwise.
\<close>

theorem worker_client_error_completes:
  "(clientError err \<longrightarrow>
      jobResultOf (Inl err) = Inr (failureResult err) \<and>
      \<not> jobSuccess (failureResult err) \<and> jobError (failureResult err) = Some (errorMessage err) \<and>
      (processor attemptsMade = jobResultOf (Inl err) \<longrightarrow>
         brokerProcess (Suc remaining) attemptsMade processor =
           (JobCompleted (failureResult err), Suc attemptsMade))) \<and>
   (\<not> clientError err \<longrightarrow>
      jobResultOf (Inl err) = Inl err \<and>
      (processor attemptsMade = jobResultOf (Inl err) \<longrightarrow>
         brokerProcess (Suc remaining) attemptsMade processor =
           (if remaining = 0 then (JobFailed (errorMessage err), Suc attemptsMade)
            else brokerProcess remaining (Suc attemptsMade) processor))) \<and>
   (fst (route env request s) = Inl err \<longrightarrow>
      fst (processChatJob env request s) = jobResultOf (Inl err))"
  by (auto simp: jobResultOf_client jobResultOf_other failureResult_def processChatJob_def
      split: prod.splits)

theorem worker_client_error_completes_witness:
  "clientError (ProviderError ''openai'' ''HTTP 400: bad request'' 400) \<and>
   fst (route envFail400 requestAuto store0) =
     Inl (ProviderError ''openai'' ''HTTP 400: bad request'' 400) \<and>
   fst (processChatJob envFail400 requestAuto store0) =
     Inr (failureResult (ProviderError ''openai'' ''HTTP 400: bad request'' 400)) \<and>
   brokerProcess (Suc 2) 0
     (\<lambda>i. jobResultOf (Inl (ProviderError ''openai'' ''HTTP 400: bad request'' 400))) =
     (JobCompleted (failureResult (ProviderError ''openai'' ''HTTP 400: bad request'' 400)), Suc 0) \<and>
   \<not> clientError (ProviderError ''openai'' ''HTTP 500: upstream'' 500) \<and>
   jobResultOf (Inl (ProviderError ''openai'' ''HTTP 500: upstream'' 500)) =
     Inl (ProviderError ''openai'' ''HTTP 500: upstream'' 500)"
proof -
  let ?e4 = "ProviderError ''openai'' ''HTTP 400: bad request'' 400"
  let ?e5 = "ProviderError ''openai'' ''HTTP 500: upstream'' 500"
  have c4: "clientError ?e4" by (simp add: clientError_def ProviderError_def)
  have c5: "\<not> clientError ?e5" by (simp add: clientError_def ProviderError_def)
  have r4: "fst (route envFail400 requestAuto store0) = Inl ?e4" by code_simp
  note T4 = worker_client_error_completes[of ?e4 "\<lambda>i. jobResultOf (Inl ?e4)" 0 2
              envFail400 requestAuto store0]
  note T5 = worker_client_error_completes[of ?e5 "\<lambda>i. jobResultOf (Inl ?e5)" 0 2
              envFail400 requestAuto store0]
  have j4: "jobResultOf (Inl ?e4) = Inr (failureResult ?e4)" using T4 c4 by blast
  have p4: "fst (processChatJob envFail400 requestAuto store0) = Inr (failureResult ?e4)"
    using T4 r4 j4 by simp
  have b4: "brokerProcess (Suc 2) 0 (\<lambda>i. jobResultOf (Inl ?e4)) =
              (JobCompleted (failureResult ?e4), Suc 0)"
    using T4 c4 by blast
  have j5: "jobResultOf (Inl ?e5) = Inl ?e5" using T5 c5 by blast
  show ?thesis using c4 r4 p4 b4 c5 j5 by (intro conjI)
qed

section \<open>Properties of the job queue\<close>

lemma showNat_1: "showNat (Suc 0) = ''1''"
  by (simp add: showNat.simps digitChar_def)

lemma showNat_120000: "showNat 120000 = ''120000''"
  by (simp add: showNat.simps digitChar_def)

lemma enqueue_requestR1:
  "enqueueChatRequest requestR1 None ''uuid-0'' emptyQueue =
     (''req-1'',
      \<lparr>queueJobs = [\<lparr>jobId = ''1'', jobName = ''req-1'',
                      jobData = \<lparr>dataRequestId = ''req-1'', dataRequest = requestR1\<rparr>,
                      jobStatus = Waiting\<rparr>],
       idCounter = 1\<rparr>)"
  by (simp add: enqueueChatRequest_def queueAdd_def requestR1_def emptyQueue_def showNat_1 Let_def)

lemma waiterStep_other_id:
  "jid \<noteq> requestId \<Longrightarrow>
   waiterStep requestId timeoutMs st (CompletedEvent jid returnvalue) = st \<and>
   waiterStep requestId timeoutMs st (FailedEvent jid reason) = st"
  by (cases st) simp_all

lemma waitForJob_settles_once:
  "waitForJob requestId timeoutMs events \<noteq> Pending \<Longrightarrow>
   waitForJob requestId timeoutMs (events @ later) = waitForJob requestId timeoutMs events"
proof (induction later rule: rev_induct)
  case Nil
  then show ?case by simp
next
  case (snoc ev later)
  then show ?case
    by (cases "waitForJob requestId timeoutMs events") (simp_all add: waitForJob_def)
qed

lemma queueAdd_generated_id:
  "optJobId opts = None \<Longrightarrow>
   jobId (fst (queueAdd jobname payload opts q)) = showNat (idCounter q + 1)"
  by (simp add: queueAdd_def Let_def)

text \<open>
  Claim C9, at a concrete input. A request with the id \<open>req-1\<close> is enqueued on an
  empty queue. \<open>enqueueChatRequest\<close> returns \<open>req-1\<close>, but passes it to the broker
  as the job's name and gives no job id, so the job is stored under the id \<open>1\<close>.
  The waiter for \<open>req-1\<close> finds no job in its direct lookup and stays pending when
  the job's completion event arrives, since that event carries the id \<open>1\<close>; when the
  timer fires it is rejected with the timeout error, although the job completed before.
\<close>

theorem waitForJob_misses_completed_job:
  "fst (enqueueChatRequest requestR1 None ''uuid-0'' emptyQueue) = ''req-1'' \<and>
   map jobId (queueJobs (snd (enqueueChatRequest requestR1 None ''uuid-0'' emptyQueue))) = [''1''] \<and>
   getJob ''req-1'' (snd (enqueueChatRequest requestR1 None ''uuid-0'' emptyQueue)) = None \<and>
   waitForJob ''req-1'' 120000
     [LookupAnswer (getJob ''req-1'' (snd (enqueueChatRequest requestR1 None ''uuid-0'' emptyQueue))),
      CompletedEvent ''1'' (Some resultOk)] = Pending \<and>
   waitForJob ''req-1'' 120000
     [LookupAnswer (getJob ''req-1'' (snd (enqueueChatRequest requestR1 None ''uuid-0'' emptyQueue))),
      CompletedEvent ''1'' (Some resultOk), TimerFired] =
     Rejected ''Job req-1 timed out after 120000ms''"
  by (simp add: enqueue_requestR1 getJob_def waitForJob_def timeoutMessage_def showNat_120000)

section \<open>Properties of the provider adapters\<close>

lemma validateModel_accepts_extension:
  assumes "s \<in> set supportedModels"
  shows "BaseProviderAdapter_validateModel regexTest supportedModels (s @ ext)"
proof -
  have "prefix s (s @ ext)" by simp
  then show ?thesis using assms
    unfolding BaseProviderAdapter_validateModel_def list_ex_iff by blast
qed

lemma validateModel_mono:
  "BaseProviderAdapter_validateModel regexTest supportedModels m \<Longrightarrow>
   BaseProviderAdapter_validateModel anyPattern supportedModels m"
  unfolding BaseProviderAdapter_validateModel_def list_ex_iff anyPattern_def by blast

lemma firstSegment_prefix: "prefix (firstSegment s) (s @ ext)"
proof -
  have "prefix (takeWhile (\<lambda>c. c \<noteq> CHR ''-'') s) s"
    by (metis prefixI takeWhile_dropWhile_id)
  then show ?thesis unfolding firstSegment_def by (rule prefix_prefix)
qed

lemma openai_accepts_extension:
  "s \<in> set OpenAIAdapter_supportedModels \<Longrightarrow> OpenAIAdapter_validateModel (s @ ext)"
  unfolding OpenAIAdapter_validateModel_def list_ex_iff
  using firstSegment_prefix by blast

lemma fireworks_names: "list_all (prefix ''accounts/'') FireworksAdapter_supportedModels"
  by (simp add: FireworksAdapter_supportedModels_def)

lemma fireworks_accepts_extension:
  assumes "s \<in> set FireworksAdapter_supportedModels"
  shows "FireworksAdapter_validateModel (s @ ext)"
proof -
  have "prefix ''accounts/'' s" using assms fireworks_names by (simp add: list_all_iff)
  then have "prefix ''accounts/'' (s @ ext)" by (rule prefix_prefix)
  then show ?thesis by (simp add: FireworksAdapter_validateModel_def)
qed

lemma registry_accepts_extension:
  assumes "p \<noteq> together" "s \<in> set (supportedModelsOf p)"
  shows "registryValidateModel regexTest p (s @ ext)"
  using assms
  by (cases p)
     (simp_all add: validateModel_accepts_extension openai_accepts_extension
        fireworks_accepts_extension OpenRouterAdapter_validateModel_def
        DeepSeekAdapter_validateModel_def)

lemma registry_inherited_rule:
  assumes "p \<in> {anthropic, gemini, mistral, groq, deepseek}"
  shows "registryValidateModel regexTest p m \<longleftrightarrow>
           (\<exists>s \<in> set (supportedModelsOf p).
              s = m \<or> prefix s m \<or> (CHR ''*'' \<in> set s \<and> regexTest (replaceStar s) m))"
  using assms
  by (auto simp: BaseProviderAdapter_validateModel_def DeepSeekAdapter_validateModel_def
      list_ex_iff)

lemma tryAttempt_reaches_chat:
  assumes sel: "fst (selectKeyWithFallback env attempt ctx att st) = Inr selection"
    and ad: "getProviderAdapter env (provider (key selection)) = Some adapter"
    and ok: "validateModel adapter (resolvedModel selection)"
  shows "fst (tryAttempt env request ctx attempt att st) =
           (case chatOutcome env attempt (key selection)
                   (mapModelName adapter (resolvedModel selection)) of
              Inl err \<Rightarrow> Inl err
            | Inr response \<Rightarrow>
                Inr (response, \<lparr>metaKeyId = keyId (key selection),
                                 metaProvider = provider (key selection),
                                 metaModel = resolvedModel selection\<rparr>))"
proof -
  obtain s1 where "selectKeyWithFallback env attempt ctx att st = (Inr selection, s1)"
    using sel by (cases "selectKeyWithFallback env attempt ctx att st") auto
  then show ?thesis using ad ok
    by (simp add: tryAttempt_def Let_def split: sum.splits)
qed


text \<open>
  Claim C10, amended. For the five adapters that inherit \<open>validateModel\<close>
  (Anthropic, Gemini, Mistral, Groq, DeepSeek), the method accepts \<open>m\<close> exactly when
  some entry \<open>s\<close> of the adapter's supported models equals \<open>m\<close>, or is a prefix
  of \<open>m\<close>, or contains \<open>*\<close> and the regular expression obtained from it by
  replacing its first \<open>*\<close> with \<open>.*\<close> matches \<open>m\<close>. Every adapter of the
  registry except Together accepts every model name that extends one of its supported
  names by a suffix. For such a name the check of the router does not throw: when an
  attempt has selected a key of that provider with this resolved model, the outcome of the
  attempt is the outcome of the adapter's chat call.
\<close>

theorem validateModel_by_adapter:
  "(p \<in> {anthropic, gemini, mistral, groq, deepseek} \<longrightarrow>
      (registryValidateModel regexTest p m \<longleftrightarrow>
         (\<exists>s \<in> set (supportedModelsOf p).
            s = m \<or> prefix s m \<or> (CHR ''*'' \<in> set s \<and> regexTest (replaceStar s) m)))) \<and>
   (p \<noteq> together \<and> base \<in> set (supportedModelsOf p) \<longrightarrow>
      registryValidateModel regexTest p (base @ ext) \<and>
      (fst (selectKeyWithFallback env attempt ctx att st) = Inr selection \<and>
       provider (key selection) = p \<and> resolvedModel selection = base @ ext \<and>
       getProviderAdapter env p = Some adapter \<and>
       validateModel adapter = registryValidateModel regexTest p \<longrightarrow>
         fst (tryAttempt env request ctx attempt att st) =
           (case chatOutcome env attempt (key selection)
                   (mapModelName adapter (resolvedModel selection)) of
              Inl err \<Rightarrow> Inl err
            | Inr response \<Rightarrow>
                Inr (response, \<lparr>metaKeyId = keyId (key selection),
                                 metaProvider = provider (key selection),
                                 metaModel = resolvedModel selection\<rparr>))))"
proof (intro conjI impI)
  assume "p \<in> {anthropic, gemini, mistral, groq, deepseek}"
  then show "registryValidateModel regexTest p m \<longleftrightarrow>
         (\<exists>s \<in> set (supportedModelsOf p).
            s = m \<or> prefix s m \<or> (CHR ''*'' \<in> set s \<and> regexTest (replaceStar s) m))"
    by (rule registry_inherited_rule)
next
  assume "p \<noteq> together \<and> base \<in> set (supportedModelsOf p)"
  then show "registryValidateModel regexTest p (base @ ext)"
    by (simp add: registry_accepts_extension)
next
  assume a: "p \<noteq> together \<and> base \<in> set (supportedModelsOf p)"
    and b: "fst (selectKeyWithFallback env attempt ctx att st) = Inr selection \<and>
       provider (key selection) = p \<and> resolvedModel selection = base @ ext \<and>
       getProviderAdapter env p = Some adapter \<and>
       validateModel adapter = registryValidateModel regexTest p"
  have ok: "validateModel adapter (resolvedModel selection)"
    using a b by (simp add: registry_accepts_extension)
  have ad: "getProviderAdapter env (provider (key selection)) = Some adapter" using b by simp
  have sel: "fst (selectKeyWithFallback env attempt ctx att st) = Inr selection" using b by simp
  show "fst (tryAttempt env request ctx attempt att st) =
           (case chatOutcome env attempt (key selection)
                   (mapModelName adapter (resolvedModel selection)) of
              Inl err \<Rightarrow> Inl err
            | Inr response \<Rightarrow>
                Inr (response, \<lparr>metaKeyId = keyId (key selection),
                                 metaProvider = provider (key selection),
                                 metaModel = resolvedModel selection\<rparr>))"
    by (rule tryAttempt_reaches_chat[OF sel ad ok])
qed

theorem validateModel_by_adapter_witness:
  "deepseek \<in> {anthropic, gemini, mistral, groq, deepseek} \<and>
   ''deepseek-chat'' \<in> set (supportedModelsOf deepseek) \<and>
   registryValidateModel noPattern deepseek (''deepseek-chat'' @ ''-v9'') \<and>
   (\<exists>s \<in> set (supportedModelsOf deepseek).
      s = ''deepseek-chat'' @ ''-v9'' \<or> prefix s (''deepseek-chat'' @ ''-v9'') \<or>
      (CHR ''*'' \<in> set s \<and> noPattern (replaceStar s) (''deepseek-chat'' @ ''-v9''))) \<and>
   ''gpt-4o'' \<in> set (supportedModelsOf openai) \<and>
   fst (selectKeyWithFallback envRegistry 0 (routingContext requestDated) {} store0) =
     Inr \<lparr>key = keyB, resolvedModel = ''gpt-4o'' @ ''-2099-01-01''\<rparr> \<and>
   fst (tryAttempt envRegistry requestDated (routingContext requestDated) 0 {} store0) =
     Inl (ProviderError ''openai'' ''HTTP 500: upstream'' 500)"
proof -
  let ?sel = "\<lparr>key = keyB, resolvedModel = ''gpt-4o'' @ ''-2099-01-01''\<rparr>"
  have d1: "deepseek \<in> {anthropic, gemini, mistral, groq, deepseek}" by simp
  have d2: "''deepseek-chat'' \<in> set (supportedModelsOf deepseek)"
    by (simp add: DeepSeekAdapter_supportedModels_def)
  note D = validateModel_by_adapter[of deepseek noPattern "''deepseek-chat'' @ ''-v9''"
             "''deepseek-chat''" "''-v9''"]
  have d0: "deepseek \<noteq> together \<and> ''deepseek-chat'' \<in> set (supportedModelsOf deepseek)"
    using d2 by simp
  have d3: "registryValidateModel noPattern deepseek (''deepseek-chat'' @ ''-v9'')"
    by (rule D[THEN conjunct2, rule_format, OF d0, THEN conjunct1])
  have d4: "\<exists>s \<in> set (supportedModelsOf deepseek).
      s = ''deepseek-chat'' @ ''-v9'' \<or> prefix s (''deepseek-chat'' @ ''-v9'') \<or>
      (CHR ''*'' \<in> set s \<and> noPattern (replaceStar s) (''deepseek-chat'' @ ''-v9''))"
    by (rule iffD1[OF D[THEN conjunct1, rule_format, OF d1] d3])
  have o1: "''gpt-4o'' \<in> set (supportedModelsOf openai)"
    by (simp add: OpenAIAdapter_supportedModels_def)
  have o2: "fst (selectKeyWithFallback envRegistry 0 (routingContext requestDated) {} store0) =
              Inr ?sel" by code_simp
  have o3: "provider (key ?sel) = openai" by (simp add: keyB_def)
  have o4: "getProviderAdapter envRegistry openai = Some (registryAdapter openai)"
    by (simp add: envRegistry_def)
  have o5: "validateModel (registryAdapter openai) = registryValidateModel noPattern openai"
    by (simp add: registryAdapter_def)
  have o6: "chatOutcome envRegistry 0 (key ?sel)
              (mapModelName (registryAdapter openai) (resolvedModel ?sel)) =
            Inl (ProviderError ''openai'' ''HTTP 500: upstream'' 500)"
    by (simp add: envRegistry_def)
  note O = validateModel_by_adapter[of openai noPattern "[]" "''gpt-4o''" "''-2099-01-01''"
             envRegistry 0 "routingContext requestDated" "{}" store0 ?sel
             "registryAdapter openai" requestDated, THEN conjunct2, rule_format]
  have p: "openai \<noteq> together \<and> ''gpt-4o'' \<in> set (supportedModelsOf openai)"
    using o1 by simp
  have o8: "resolvedModel ?sel = ''gpt-4o'' @ ''-2099-01-01''" by simp
  have q: "fst (selectKeyWithFallback envRegistry 0 (routingContext requestDated) {} store0) =
             Inr ?sel \<and>
           provider (key ?sel) = openai \<and> resolvedModel ?sel = ''gpt-4o'' @ ''-2099-01-01'' \<and>
           getProviderAdapter envRegistry openai = Some (registryAdapter openai) \<and>
           validateModel (registryAdapter openai) = registryValidateModel noPattern openai"
    using o2 o3 o8 o4 o5 by (intro conjI)
  have o7: "fst (tryAttempt envRegistry requestDated (routingContext requestDated) 0 {} store0) =
     Inl (ProviderError ''openai'' ''HTTP 500: upstream'' 500)"
    using O[OF p, THEN conjunct2, rule_format, OF q] unfolding o6 by (simp only: sum.case)
  show ?thesis using d1 d2 d3 d4 o1 o2 o7 by (intro conjI)
qed

text \<open>
  Claim C10 as stated, for every adapter, fails at the four adapters that override the
  method. Together rejects a name that extends one of its supported names by a suffix.
  OpenRouter, OpenAI and Fireworks accept names that no entry of their lists equals or is
  a prefix of; their lists have no entry with \<open>*\<close>, so the rule of the claim rejects
  these names whatever the regular expressions match.
\<close>

lemma together_rejects:
  "\<not> registryValidateModel anyPattern together ''databricks/dbrx-instruct-v2''"
  by code_simp

lemma openrouter_openai_accept:
  "registryValidateModel noPattern openrouter ''x'' \<and>
   \<not> BaseProviderAdapter_validateModel anyPattern (supportedModelsOf openrouter) ''x'' \<and>
   registryValidateModel noPattern openai ''gpt'' \<and>
   \<not> BaseProviderAdapter_validateModel anyPattern (supportedModelsOf openai) ''gpt''"
  by code_simp

lemma fireworks_accepts:
  "registryValidateModel noPattern fireworks ''accounts/x'' \<and>
   \<not> BaseProviderAdapter_validateModel anyPattern (supportedModelsOf fireworks) ''accounts/x''"
  by code_simp

theorem overriding_adapters_differ:
  "''databricks/dbrx-instruct'' \<in> set (supportedModelsOf together) \<and>
   prefix ''databricks/dbrx-instruct'' ''databricks/dbrx-instruct-v2'' \<and>
   \<not> registryValidateModel anyPattern together ''databricks/dbrx-instruct-v2'' \<and>
   registryValidateModel noPattern openrouter ''x'' \<and>
   \<not> BaseProviderAdapter_validateModel anyPattern (supportedModelsOf openrouter) ''x'' \<and>
   registryValidateModel noPattern openai ''gpt'' \<and>
   \<not> BaseProviderAdapter_validateModel anyPattern (supportedModelsOf openai) ''gpt'' \<and>
   registryValidateModel noPattern fireworks ''accounts/x'' \<and>
   \<not> BaseProviderAdapter_validateModel anyPattern (supportedModelsOf fireworks) ''accounts/x''"
proof -
  have a: "''databricks/dbrx-instruct'' \<in> set (supportedModelsOf together)"
    by (simp add: TogetherAdapter_supportedModels_def)
  have b: "prefix ''databricks/dbrx-instruct'' ''databricks/dbrx-instruct-v2''" by simp
  show ?thesis
    using a b together_rejects openrouter_openai_accept fireworks_accepts by (intro conjI) simp_all
qed

end
